theory Spec2Isabelle
  imports Complex_Main
begin

section \<open>Common ground: addresses, unsigned 256-bit arithmetic, errors, events\<close>

text \<open>
  The contracts are written in Solidity 0.8.24.  An \<open>address\<close> is modelled as a natural
  number with \<open>0\<close> for \<open>address(0)\<close>.  A \<open>uint256\<close> is a natural number; Solidity 0.8
  checks every \<open>+\<close>, \<open>-\<close> and \<open>*\<close> and reverts with an arithmetic panic when the result
  leaves the range, which the three \<open>checked_\<close> operations below write out.  Every
  \<open>revert\<close> of the source is an \<open>Inl\<close> result; a reverted call leaves the storage as it
  was, so a failing operation returns no new state.
\<close>

type_synonym address = nat

datatype bytes = Bytes "nat list" | EncodeWithSignature string "nat list"

datatype error =
    Panic
  | NotMinter
  | InvalidEmissionRatio
  | ZeroAddress
  | OwnableUnauthorizedAccount
  | OwnableInvalidOwner
  | ERC20InsufficientAllowance
  | ERC20InsufficientBalance
  | NotAdmin
  | NotGovernor
  | NotSecurityCouncil
  | TransactionNotQueued
  | TransactionAlreadyQueued
  | TransactionNotReady
  | TransactionExpired
  | TransactionAlreadyCanceled
  | ExecutionFailed
  | InvalidDelay
  | NotMember
  | AlreadyMember
  | NotEnoughMembers
  | InvalidThreshold
  | ActionNotFound
  | ActionAlreadyExecuted
  | ActionNotApproved
  | AlreadyApproved
  | CannotRemoveLastFoundationMember
  | OnlyDAOCanModifyMembers
  | EnforcedPause
  | ExpectedPause
  | NotRegisteredDelegator
  | AlreadyRegisteredDelegator
  | DelegatorNotActive
  | DelegationCapExceeded
  | InsufficientDelegation
  | ZeroAmount
  | InvalidCap
  | SelfDelegationNotAllowed
  | EmptyProfile
  | InvalidProposalState
  | NotAuthorizedToCancel

definition MAX_UINT256 :: nat where
  "MAX_UINT256 = 2 ^ 256 - 1"

definition checked_add :: "nat \<Rightarrow> nat \<Rightarrow> error + nat" where
  "checked_add a b = (if a + b \<le> MAX_UINT256 then Inr (a + b) else Inl Panic)"

definition checked_sub :: "nat \<Rightarrow> nat \<Rightarrow> error + nat" where
  "checked_sub a b = (if b \<le> a then Inr (a - b) else Inl Panic)"

definition checked_mul :: "nat \<Rightarrow> nat \<Rightarrow> error + nat" where
  "checked_mul a b = (if a * b \<le> MAX_UINT256 then Inr (a * b) else Inl Panic)"

text \<open>The transaction context a call reads: \<open>msg.sender\<close>, \<open>block.timestamp\<close>, \<open>block.number\<close>.\<close>

record env =
  msg_sender :: address
  block_timestamp :: nat
  block_number :: nat

text \<open>For concrete runs: a transaction sent by \<open>sender\<close> at time \<open>time\<close>, with twelve
  seconds to the block.\<close>

definition tx_at :: "address \<Rightarrow> nat \<Rightarrow> env" where
  "tx_at sender time = \<lparr>msg_sender = sender, block_timestamp = time, block_number = time div 12\<rparr>"

section \<open>vTON: the governance token\<close>

datatype vton_event =
    Transfer address address nat
  | Minted address nat
  | EmissionRatioUpdated nat nat
  | MinterUpdated address bool

record vTON =
  balanceOf :: "address \<Rightarrow> nat"
  allowance :: "address \<Rightarrow> address \<Rightarrow> nat"
  totalSupply :: nat
  emissionRatio :: nat
  minters :: "address \<Rightarrow> bool"
  vton_owner :: address
  vton_log :: "vton_event list"

definition MAX_EMISSION_RATIO :: nat where
  "MAX_EMISSION_RATIO = 10 ^ 18"


definition erc20_transfer :: "vTON \<Rightarrow> address \<Rightarrow> address \<Rightarrow> nat \<Rightarrow> error + vTON" where
  "erc20_transfer t from to v =
     (if balanceOf t from < v then Inl ERC20InsufficientBalance
      else Inr (let b = (balanceOf t)(from := balanceOf t from - v)
                in t\<lparr>balanceOf := b(to := b to + v),
                     vton_log := vton_log t @ [Transfer from to v]\<rparr>))"

definition erc20_transferFrom ::
  "vTON \<Rightarrow> address \<Rightarrow> address \<Rightarrow> address \<Rightarrow> nat \<Rightarrow> error + vTON" where
  "erc20_transferFrom t spender from to v =
     (if allowance t from spender < v then Inl ERC20InsufficientAllowance
      else erc20_transfer
             (if allowance t from spender = MAX_UINT256 then t
              else t\<lparr>allowance := (allowance t)(from := (allowance t from)
                                       (spender := allowance t from spender - v))\<rparr>)
             from to v)"













section \<open>Timelock\<close>

text \<open>
  A queued transaction is keyed by \<open>keccak256(abi.encode(target, value, data, eta))\<close>.
  The hash is taken to be injective, so the key is the tuple itself.  The outcome of the
  low-level \<open>target.call{value: value}(data)\<close> is an input of the model: the flag
  \<open>success\<close> and the returned bytes.  What the callee does to other contracts is outside
  the model.
\<close>

type_synonym txkey = "address \<times> nat \<times> bytes \<times> nat"

datatype timelock_event =
    TransactionQueued txkey address nat bytes nat
  | TransactionExecuted txkey address nat bytes
  | TransactionCanceled txkey
  | DelayUpdated nat nat
  | GovernorUpdated address address
  | SecurityCouncilUpdated address address

record Timelock =
  admin :: address
  governor :: address
  securityCouncil :: address
  delay :: nat
  queuedTransactions :: "txkey \<Rightarrow> bool"
  canceledTransactions :: "txkey \<Rightarrow> bool"
  transactionEta :: "txkey \<Rightarrow> nat"
  timelock_log :: "timelock_event list"

definition MINIMUM_DELAY :: nat where
  "MINIMUM_DELAY = 3600"

definition MAXIMUM_DELAY :: nat where
  "MAXIMUM_DELAY = 30 * 86400"

definition GRACE_PERIOD :: nat where
  "GRACE_PERIOD = 14 * 86400"

definition Timelock_constructor :: "address \<Rightarrow> nat \<Rightarrow> error + Timelock" where
  "Timelock_constructor admin' delay' =
     (if admin' = 0 then Inl ZeroAddress
      else if delay' < MINIMUM_DELAY \<or> delay' > MAXIMUM_DELAY then Inl InvalidDelay
      else Inr \<lparr>admin = admin', governor = 0, securityCouncil = 0, delay = delay',
                queuedTransactions = (\<lambda>_. False), canceledTransactions = (\<lambda>_. False),
                transactionEta = (\<lambda>_. 0), timelock_log = []\<rparr>)"

definition queueTransaction ::
  "Timelock \<Rightarrow> env \<Rightarrow> address \<Rightarrow> nat \<Rightarrow> bytes \<Rightarrow> error + (Timelock \<times> txkey)" where
  "queueTransaction s e target val data =
     (if msg_sender e \<noteq> governor s then Inl NotGovernor
      else case checked_add (block_timestamp e) (delay s) of
             Inl err \<Rightarrow> Inl err
           | Inr eta \<Rightarrow>
               (let txHash = (target, val, data, eta)
                in if queuedTransactions s txHash then Inl TransactionAlreadyQueued
                   else Inr (s\<lparr>queuedTransactions := (queuedTransactions s)(txHash := True),
                                transactionEta := (transactionEta s)(txHash := eta),
                                timelock_log := timelock_log s
                                  @ [TransactionQueued txHash target val data eta]\<rparr>,
                             txHash)))"

text \<open>\<open>executeTransaction\<close>.  The argument \<open>call_result\<close> is what the low-level call
  returns.  The reentrancy guard only matters for calls nested in that low-level call,
  which the model does not follow.\<close>

definition executeTransaction ::
  "Timelock \<Rightarrow> env \<Rightarrow> (bool \<times> bytes) \<Rightarrow> address \<Rightarrow> nat \<Rightarrow> bytes \<Rightarrow> nat
     \<Rightarrow> error + (Timelock \<times> bytes)" where
  "executeTransaction s e call_result target val data eta =
     (if msg_sender e \<noteq> governor s then Inl NotGovernor
      else let txHash = (target, val, data, eta)
      in if \<not> queuedTransactions s txHash then Inl TransactionNotQueued
         else if canceledTransactions s txHash then Inl TransactionAlreadyCanceled
         else if block_timestamp e < eta then Inl TransactionNotReady
         else case checked_add eta GRACE_PERIOD of
                Inl err \<Rightarrow> Inl err
              | Inr deadline \<Rightarrow>
                  if block_timestamp e > deadline then Inl TransactionExpired
                  else if \<not> fst call_result then Inl ExecutionFailed
                  else Inr (s\<lparr>queuedTransactions := (queuedTransactions s)(txHash := False),
                               timelock_log := timelock_log s
                                 @ [TransactionExecuted txHash target val data]\<rparr>,
                            snd call_result))"

definition cancelTransaction ::
  "Timelock \<Rightarrow> env \<Rightarrow> address \<Rightarrow> nat \<Rightarrow> bytes \<Rightarrow> nat \<Rightarrow> error + Timelock" where
  "cancelTransaction s e target val data eta =
     (if msg_sender e \<noteq> securityCouncil s then Inl NotSecurityCouncil
      else let txHash = (target, val, data, eta)
      in if \<not> queuedTransactions s txHash then Inl TransactionNotQueued
         else Inr (s\<lparr>canceledTransactions := (canceledTransactions s)(txHash := True),
                      timelock_log := timelock_log s @ [TransactionCanceled txHash]\<rparr>))"

definition cancelTransactionByHash :: "Timelock \<Rightarrow> env \<Rightarrow> txkey \<Rightarrow> error + Timelock" where
  "cancelTransactionByHash s e txHash =
     (if msg_sender e \<noteq> securityCouncil s then Inl NotSecurityCouncil
      else if \<not> queuedTransactions s txHash then Inl TransactionNotQueued
      else Inr (s\<lparr>canceledTransactions := (canceledTransactions s)(txHash := True),
                   timelock_log := timelock_log s @ [TransactionCanceled txHash]\<rparr>))"

definition setGovernor :: "Timelock \<Rightarrow> env \<Rightarrow> address \<Rightarrow> error + Timelock" where
  "setGovernor s e newGovernor =
     (if msg_sender e \<noteq> admin s then Inl NotAdmin
      else if newGovernor = 0 then Inl ZeroAddress
      else Inr (s\<lparr>governor := newGovernor,
                   timelock_log := timelock_log s @ [GovernorUpdated (governor s) newGovernor]\<rparr>))"

text \<open>A timelock for concrete runs: deployed by address 1 with a delay of seven days, the
  governor set to address 5; then the governor queues a call to address 7 at time 1000.\<close>

definition governed_timelock :: Timelock where
  "governed_timelock = \<lparr>admin = 1, governor = 5, securityCouncil = 0, delay = 604800,
     queuedTransactions = (\<lambda>_. False), canceledTransactions = (\<lambda>_. False),
     transactionEta = (\<lambda>_. 0), timelock_log = [GovernorUpdated 0 5]\<rparr>"

definition queued_key :: txkey where
  "queued_key = (7, 0, Bytes [], 605800)"

definition queued_timelock :: Timelock where
  "queued_timelock = governed_timelock\<lparr>
     queuedTransactions := (\<lambda>_. False)(queued_key := True),
     transactionEta := (\<lambda>_. 0)(queued_key := 605800),
     timelock_log := [GovernorUpdated 0 5, TransactionQueued queued_key 7 0 (Bytes []) 605800]\<rparr>"

section \<open>SecurityCouncil\<close>

record Member =
  account :: address
  isFoundation :: bool
  addedAt :: nat

datatype ActionType = CancelProposal | EmergencyUpgrade | PauseProtocol | UnpauseProtocol | Custom

record EmergencyAction =
  action_id :: nat
  actionType :: ActionType
  target :: address
  data :: bytes
  reason :: string
  createdAt :: nat
  executedAt :: nat
  executed :: bool
  approvers :: "address list"

datatype council_event =
    MemberAdded address bool
  | MemberRemoved address
  | ThresholdUpdated nat nat
  | EmergencyActionProposed nat ActionType address bytes string address
  | EmergencyActionApproved nat address
  | EmergencyActionExecuted nat address
  | EmergencyActionCanceled nat
  | Paused address
  | Unpaused address

record SecurityCouncil =
  daoGovernor :: address
  timelockAddress :: address
  protocolTarget :: address
  threshold :: nat
  actionCount :: nat
  members :: "Member list"
  isMember :: "address \<Rightarrow> bool"
  memberIndex :: "address \<Rightarrow> nat"
  actions :: "nat \<Rightarrow> EmergencyAction"
  pendingActionIds :: "nat list"
  approvals :: "nat \<Rightarrow> address \<Rightarrow> bool"
  paused :: bool
  council_log :: "council_event list"

definition MIN_MEMBERS :: nat where
  "MIN_MEMBERS = 2"

text \<open>The value every slot of the \<open>_actions\<close> mapping holds before it is written.\<close>

definition empty_action :: EmergencyAction where
  "empty_action = \<lparr>action_id = 0, actionType = CancelProposal, target = 0, data = Bytes [],
     reason = [], createdAt = 0, executedAt = 0, executed = False, approvers = []\<rparr>"

definition addMember_internal :: "SecurityCouncil \<Rightarrow> env \<Rightarrow> address \<Rightarrow> bool \<Rightarrow> SecurityCouncil" where
  "addMember_internal c e member isF =
     c\<lparr>memberIndex := (memberIndex c)(member := length (members c)),
       members := members c @ [\<lparr>account = member, isFoundation = isF,
                                 addedAt = block_timestamp e\<rparr>],
       isMember := (isMember c)(member := True)\<rparr>"

text \<open>The constructor's loop over \<open>externalMembers\<close>.\<close>

fun addExternalMembers :: "SecurityCouncil \<Rightarrow> env \<Rightarrow> address list \<Rightarrow> error + SecurityCouncil" where
  "addExternalMembers c e [] = Inr c"
| "addExternalMembers c e (m # ms) =
     (if m = 0 then Inl ZeroAddress
      else addExternalMembers (addMember_internal c e m False) e ms)"

text \<open>The storage of a contract that is being constructed.\<close>

definition blank_council :: SecurityCouncil where
  "blank_council = \<lparr>daoGovernor = 0, timelockAddress = 0, protocolTarget = 0, threshold = 0,
     actionCount = 0, members = [], isMember = (\<lambda>_. False), memberIndex = (\<lambda>_. 0),
     actions = (\<lambda>_. empty_action), pendingActionIds = [], approvals = (\<lambda>_ _. False),
     paused = False, council_log = []\<rparr>"

text \<open>The product \<open>memberCount_ * 2 + 2\<close> is written without the overflow check: the
  member array is built from a memory array, whose length is far below \<open>2 ^ 254\<close>.\<close>

definition SecurityCouncil_constructor ::
  "env \<Rightarrow> address \<Rightarrow> address list \<Rightarrow> address \<Rightarrow> address \<Rightarrow> address \<Rightarrow> error + SecurityCouncil" where
  "SecurityCouncil_constructor e foundationMember externalMembers daoGovernor' timelock'
       protocolTarget' =
     (if foundationMember = 0 \<or> daoGovernor' = 0 \<or> timelock' = 0 then Inl ZeroAddress
      else case addExternalMembers (addMember_internal blank_council e foundationMember True)
                  e externalMembers of
             Inl err \<Rightarrow> Inl err
           | Inr c \<Rightarrow>
               (let memberCount' = length (members c)
                in Inr (c\<lparr>threshold := (memberCount' * 2 + 2) div 3,
                          daoGovernor := daoGovernor',
                          timelockAddress := timelock',
                          protocolTarget := protocolTarget'\<rparr>)))"

definition memberCount :: "SecurityCouncil \<Rightarrow> nat" where
  "memberCount c = length (members c)"

definition foundationMemberCount :: "SecurityCouncil \<Rightarrow> nat" where
  "foundationMemberCount c = length (filter isFoundation (members c))"

definition isActionApproved :: "SecurityCouncil \<Rightarrow> nat \<Rightarrow> bool" where
  "isActionApproved c actionId = (length (approvers (actions c actionId)) \<ge> threshold c)"

definition addMember :: "SecurityCouncil \<Rightarrow> env \<Rightarrow> address \<Rightarrow> bool \<Rightarrow> error + SecurityCouncil" where
  "addMember c e member isF =
     (if msg_sender e \<noteq> daoGovernor c then Inl OnlyDAOCanModifyMembers
      else if member = 0 then Inl ZeroAddress
      else if isMember c member then Inl AlreadyMember
      else Inr (let c' = addMember_internal c e member isF
                in c'\<lparr>council_log := council_log c' @ [MemberAdded member isF]\<rparr>))"

text \<open>\<open>_removeMember\<close>: swap the last member into the vacated slot, then pop.  The caller
  has checked that the index is inside the array.\<close>

definition removeMember_internal :: "SecurityCouncil \<Rightarrow> address \<Rightarrow> SecurityCouncil" where
  "removeMember_internal c member =
     (let index = memberIndex c member;
          lastIndex = length (members c) - 1;
          c1 = (if index \<noteq> lastIndex
                then (let lastMember = members c ! lastIndex
                      in c\<lparr>members := (members c)[index := lastMember],
                           memberIndex := (memberIndex c)(account lastMember := index)\<rparr>)
                else c)
      in c1\<lparr>members := butlast (members c1),
            memberIndex := (memberIndex c1)(member := 0),
            isMember := (isMember c1)(member := False)\<rparr>)"

definition removeMember :: "SecurityCouncil \<Rightarrow> env \<Rightarrow> address \<Rightarrow> error + SecurityCouncil" where
  "removeMember c e member =
     (if msg_sender e \<noteq> daoGovernor c then Inl OnlyDAOCanModifyMembers
      else if \<not> isMember c member then Inl NotMember
      else if length (members c) \<le> MIN_MEMBERS then Inl NotEnoughMembers
      else let index = memberIndex c member
      in if index \<ge> length (members c) then Inl Panic
         else if isFoundation (members c ! index) \<and> foundationMemberCount c = 1
              then Inl CannotRemoveLastFoundationMember
         else Inr (let c1 = removeMember_internal c member;
                       c2 = (if threshold c1 > length (members c1)
                             then c1\<lparr>threshold := length (members c1)\<rparr> else c1)
                   in c2\<lparr>council_log := council_log c2 @ [MemberRemoved member]\<rparr>))"

definition setThreshold :: "SecurityCouncil \<Rightarrow> env \<Rightarrow> nat \<Rightarrow> error + SecurityCouncil" where
  "setThreshold c e newThreshold =
     (if msg_sender e \<noteq> daoGovernor c then Inl OnlyDAOCanModifyMembers
      else if newThreshold = 0 \<or> newThreshold > length (members c) then Inl InvalidThreshold
      else Inr (c\<lparr>threshold := newThreshold,
                   council_log := council_log c
                     @ [ThresholdUpdated (threshold c) newThreshold]\<rparr>))"

text \<open>The body shared by \<open>proposeEmergencyAction\<close> and the three convenience functions:
  take the next id, store the action with the caller as first approver, append the id to
  the pending list.\<close>

definition newAction ::
  "SecurityCouncil \<Rightarrow> env \<Rightarrow> ActionType \<Rightarrow> address \<Rightarrow> bytes \<Rightarrow> string \<Rightarrow> SecurityCouncil \<times> nat" where
  "newAction c e ty tgt dat rsn =
     (let actionId = actionCount c
      in (c\<lparr>actionCount := actionCount c + 1,
            actions := (actions c)(actionId :=
              \<lparr>action_id = actionId, actionType = ty, target = tgt, data = dat,
               reason = rsn, createdAt = block_timestamp e, executedAt = 0,
               executed = False, approvers = [msg_sender e]\<rparr>),
            approvals := (approvals c)(actionId := (approvals c actionId)(msg_sender e := True)),
            pendingActionIds := pendingActionIds c @ [actionId],
            council_log := council_log c
              @ [EmergencyActionProposed actionId ty tgt dat rsn (msg_sender e)]\<rparr>,
          actionId))"

definition proposeEmergencyAction ::
  "SecurityCouncil \<Rightarrow> env \<Rightarrow> ActionType \<Rightarrow> address \<Rightarrow> bytes \<Rightarrow> string
     \<Rightarrow> error + (SecurityCouncil \<times> nat)" where
  "proposeEmergencyAction c e ty tgt dat rsn =
     (if \<not> isMember c (msg_sender e) then Inl NotMember
      else Inr (let (c', actionId) = newAction c e ty tgt dat rsn
                in (c'\<lparr>council_log := council_log c'
                          @ [EmergencyActionApproved actionId (msg_sender e)]\<rparr>,
                    actionId)))"

definition approveEmergencyAction :: "SecurityCouncil \<Rightarrow> env \<Rightarrow> nat \<Rightarrow> error + SecurityCouncil" where
  "approveEmergencyAction c e actionId =
     (if \<not> isMember c (msg_sender e) then Inl NotMember
      else let action = actions c actionId
      in if createdAt action = 0 then Inl ActionNotFound
         else if executed action then Inl ActionAlreadyExecuted
         else if approvals c actionId (msg_sender e) then Inl AlreadyApproved
         else Inr (c\<lparr>approvals := (approvals c)(actionId :=
                        (approvals c actionId)(msg_sender e := True)),
                      actions := (actions c)(actionId :=
                        action\<lparr>approvers := approvers action @ [msg_sender e]\<rparr>),
                      council_log := council_log c
                        @ [EmergencyActionApproved actionId (msg_sender e)]\<rparr>))"

text \<open>\<open>_removePendingAction\<close>: the first position holding the id receives the last
  element, and the array shrinks by one.\<close>

fun findPending :: "nat list \<Rightarrow> nat \<Rightarrow> nat \<Rightarrow> nat option" where
  "findPending [] actionId i = None"
| "findPending (x # xs) actionId i =
     (if x = actionId then Some i else findPending xs actionId (Suc i))"

definition removePendingAction :: "nat list \<Rightarrow> nat \<Rightarrow> nat list" where
  "removePendingAction ids actionId =
     (case findPending ids actionId 0 of
        None \<Rightarrow> ids
      | Some i \<Rightarrow> butlast (ids[i := ids ! (length ids - 1)]))"

text \<open>\<open>executeEmergencyAction\<close>; \<open>call_ok\<close> is the success flag of the low-level call made
  for the action types other than pause and unpause.  \<open>_pause\<close> and \<open>_unpause\<close> are those
  of OpenZeppelin's Pausable.\<close>

definition executeEmergencyAction ::
  "SecurityCouncil \<Rightarrow> env \<Rightarrow> bool \<Rightarrow> nat \<Rightarrow> error + SecurityCouncil" where
  "executeEmergencyAction c e call_ok actionId =
     (if \<not> isMember c (msg_sender e) then Inl NotMember
      else let action = actions c actionId
      in if createdAt action = 0 then Inl ActionNotFound
         else if executed action then Inl ActionAlreadyExecuted
         else if length (approvers action) < threshold c then Inl ActionNotApproved
         else let c1 = c\<lparr>actions := (actions c)(actionId :=
                             action\<lparr>executed := True, executedAt := block_timestamp e\<rparr>),
                          pendingActionIds := removePendingAction (pendingActionIds c) actionId\<rparr>
         in if actionType action = PauseProtocol
            then (if paused c1 then Inl EnforcedPause
                  else Inr (c1\<lparr>paused := True,
                               council_log := council_log c1 @ [Paused (msg_sender e),
                                 EmergencyActionExecuted actionId (msg_sender e)]\<rparr>))
            else if actionType action = UnpauseProtocol
            then (if \<not> paused c1 then Inl ExpectedPause
                  else Inr (c1\<lparr>paused := False,
                               council_log := council_log c1 @ [Unpaused (msg_sender e),
                                 EmergencyActionExecuted actionId (msg_sender e)]\<rparr>))
            else if \<not> call_ok then Inl ExecutionFailed
            else Inr (c1\<lparr>council_log := council_log c1
                            @ [EmergencyActionExecuted actionId (msg_sender e)]\<rparr>))"

definition cancelEmergencyAction :: "SecurityCouncil \<Rightarrow> env \<Rightarrow> nat \<Rightarrow> error + SecurityCouncil" where
  "cancelEmergencyAction c e actionId =
     (if \<not> isMember c (msg_sender e) then Inl NotMember
      else let action = actions c actionId
      in if createdAt action = 0 then Inl ActionNotFound
         else if executed action then Inl ActionAlreadyExecuted
         else Inr (c\<lparr>pendingActionIds := removePendingAction (pendingActionIds c) actionId,
                      actions := (actions c)(actionId := action\<lparr>executed := True\<rparr>),
                      council_log := council_log c @ [EmergencyActionCanceled actionId]\<rparr>))"

definition cancelProposal :: "SecurityCouncil \<Rightarrow> env \<Rightarrow> nat \<Rightarrow> error + SecurityCouncil" where
  "cancelProposal c e proposalId =
     (if \<not> isMember c (msg_sender e) then Inl NotMember
      else Inr (fst (newAction c e CancelProposal (timelockAddress c)
                       (EncodeWithSignature ''cancelProposal(uint256)'' [proposalId])
                       ''Cancel malicious proposal'')))"

definition pauseProtocol :: "SecurityCouncil \<Rightarrow> env \<Rightarrow> string \<Rightarrow> error + SecurityCouncil" where
  "pauseProtocol c e rsn =
     (if \<not> isMember c (msg_sender e) then Inl NotMember
      else Inr (fst (newAction c e PauseProtocol (protocolTarget c)
                       (EncodeWithSignature ''pause()'' []) rsn)))"

definition unpauseProtocol :: "SecurityCouncil \<Rightarrow> env \<Rightarrow> error + SecurityCouncil" where
  "unpauseProtocol c e =
     (if \<not> isMember c (msg_sender e) then Inl NotMember
      else Inr (fst (newAction c e UnpauseProtocol (protocolTarget c)
                       (EncodeWithSignature ''unpause()'' []) ''Unpause protocol'')))"

definition setDAOGovernor :: "SecurityCouncil \<Rightarrow> env \<Rightarrow> address \<Rightarrow> error + SecurityCouncil" where
  "setDAOGovernor c e newGovernor =
     (if msg_sender e \<noteq> daoGovernor c then Inl OnlyDAOCanModifyMembers
      else if newGovernor = 0 then Inl ZeroAddress
      else Inr (c\<lparr>daoGovernor := newGovernor\<rparr>))"

definition setProtocolTarget :: "SecurityCouncil \<Rightarrow> env \<Rightarrow> address \<Rightarrow> error + SecurityCouncil" where
  "setProtocolTarget c e newTarget =
     (if msg_sender e \<noteq> daoGovernor c then Inl OnlyDAOCanModifyMembers
      else if newTarget = 0 then Inl ZeroAddress
      else Inr (c\<lparr>protocolTarget := newTarget\<rparr>))"

text \<open>Every external, state-changing function of the council as one call, and the states
  the council can be in: those the constructor returns and those a successful call leads to
  (a reverted call changes nothing).\<close>

datatype council_call =
    Call_addMember address bool
  | Call_removeMember address
  | Call_setThreshold nat
  | Call_proposeEmergencyAction ActionType address bytes string
  | Call_approveEmergencyAction nat
  | Call_executeEmergencyAction bool nat
  | Call_cancelEmergencyAction nat
  | Call_cancelProposal nat
  | Call_pauseProtocol string
  | Call_unpauseProtocol
  | Call_setDAOGovernor address
  | Call_setProtocolTarget address

fun council_step :: "SecurityCouncil \<Rightarrow> env \<Rightarrow> council_call \<Rightarrow> error + SecurityCouncil" where
  "council_step c e (Call_addMember m f) = addMember c e m f"
| "council_step c e (Call_removeMember m) = removeMember c e m"
| "council_step c e (Call_setThreshold n) = setThreshold c e n"
| "council_step c e (Call_proposeEmergencyAction ty tgt dat rsn) =
     (case proposeEmergencyAction c e ty tgt dat rsn of
        Inl err \<Rightarrow> Inl err | Inr r \<Rightarrow> Inr (fst r))"
| "council_step c e (Call_approveEmergencyAction i) = approveEmergencyAction c e i"
| "council_step c e (Call_executeEmergencyAction ok i) = executeEmergencyAction c e ok i"
| "council_step c e (Call_cancelEmergencyAction i) = cancelEmergencyAction c e i"
| "council_step c e (Call_cancelProposal p) = cancelProposal c e p"
| "council_step c e (Call_pauseProtocol rsn) = pauseProtocol c e rsn"
| "council_step c e Call_unpauseProtocol = unpauseProtocol c e"
| "council_step c e (Call_setDAOGovernor g) = setDAOGovernor c e g"
| "council_step c e (Call_setProtocolTarget t) = setProtocolTarget c e t"

inductive council_reachable :: "SecurityCouncil \<Rightarrow> bool" where
  constructed:
    "SecurityCouncil_constructor e fm ext dao tlock pt = Inr c \<Longrightarrow> council_reachable c"
| called:
    "council_reachable c \<Longrightarrow> council_step c e call = Inr c' \<Longrightarrow> council_reachable c'"

text \<open>Runs of the council: a reverted call changes nothing.  The council of the
  repository's tests has the foundation member 11, the external members 12 and 13, and the
  DAO governor at address 2.\<close>

definition council_exec :: "SecurityCouncil \<Rightarrow> env \<times> council_call \<Rightarrow> SecurityCouncil" where
  "council_exec c ec =
     (case council_step c (fst ec) (snd ec) of Inl err \<Rightarrow> c | Inr c' \<Rightarrow> c')"

fun council_run :: "SecurityCouncil \<Rightarrow> (env \<times> council_call) list \<Rightarrow> SecurityCouncil" where
  "council_run c [] = c"
| "council_run c (ec # rest) = council_run (council_exec c ec) rest"

definition test_council :: SecurityCouncil where
  "test_council =
     (case SecurityCouncil_constructor (tx_at 1 1000) 11 [12, 13] 2 3 4 of
        Inl err \<Rightarrow> blank_council | Inr c \<Rightarrow> c)"

definition council_three_of_three :: SecurityCouncil where
  "council_three_of_three = council_run test_council [(tx_at 2 2000, Call_setThreshold 3)]"

definition council_with_action :: SecurityCouncil where
  "council_with_action =
     council_run test_council [(tx_at 11 2000, Call_pauseProtocol ''incident'')]"

text \<open>What holds of the pending list and of the actions in every state the council can
  reach: no id is listed twice, every listed id has been handed out, and an action that is
  not marked executed has no execution time.\<close>

definition pending_inv :: "SecurityCouncil \<Rightarrow> bool" where
  "pending_inv c =
     (distinct (pendingActionIds c)
      \<and> (\<forall>i \<in> set (pendingActionIds c). i < actionCount c)
      \<and> (\<forall>i. \<not> executed (actions c i) \<longrightarrow> executedAt (actions c i) = 0))"

section \<open>DelegateRegistry\<close>

record DelegatorInfo =
  profile :: string
  votingPhilosophy :: string
  interests :: string
  registeredAt :: nat
  isActive :: bool

record DelegationInfo =
  delegator :: address
  amount :: nat
  delegatedAt :: nat
  expiresAt :: nat

datatype registry_event =
    DelegatorRegistered address string string string
  | DelegatorUpdated address string string string
  | DelegatorDeactivated address
  | Delegated address address nat nat
  | Undelegated address address nat
  | DelegationCapUpdated nat nat
  | DelegationPeriodUpdated nat nat
  | AutoExpiryUpdated nat nat

record DelegateRegistry =
  delegationCap :: nat
  delegationPeriodRequirement :: nat
  autoExpiryPeriod :: nat
  delegators :: "address \<Rightarrow> DelegatorInfo"
  delegations :: "address \<Rightarrow> address \<Rightarrow> DelegationInfo"
  totalDelegated :: "address \<Rightarrow> nat"
  totalDelegatedBy :: "address \<Rightarrow> nat"
  votingPowerCheckpoints :: "address \<Rightarrow> (nat \<times> nat) list"
  delegatorList :: "address list"
  delegationTimestamps :: "address \<Rightarrow> address \<Rightarrow> nat"
  delegatorsToOwners :: "address \<Rightarrow> address list"
  registry_owner :: address
  registry_log :: "registry_event list"

definition MAX_CAP :: nat where
  "MAX_CAP = 10000"

definition DEFAULT_CAP :: nat where
  "DEFAULT_CAP = 2000"

definition DEFAULT_PERIOD :: nat where
  "DEFAULT_PERIOD = 7 * 86400"

text \<open>The zero values a mapping slot holds before it is written and after \<open>delete\<close>.\<close>

definition empty_delegator :: DelegatorInfo where
  "empty_delegator = \<lparr>profile = [], votingPhilosophy = [], interests = [],
     registeredAt = 0, isActive = False\<rparr>"

definition empty_delegation :: DelegationInfo where
  "empty_delegation = \<lparr>delegator = 0, amount = 0, delegatedAt = 0, expiresAt = 0\<rparr>"

definition DelegateRegistry_constructor :: "address \<Rightarrow> address \<Rightarrow> error + DelegateRegistry" where
  "DelegateRegistry_constructor vTON' initialOwner =
     (if initialOwner = 0 then Inl OwnableInvalidOwner
      else if vTON' = 0 then Inl ZeroAddress
      else Inr \<lparr>delegationCap = DEFAULT_CAP, delegationPeriodRequirement = DEFAULT_PERIOD,
                autoExpiryPeriod = 0, delegators = (\<lambda>_. empty_delegator),
                delegations = (\<lambda>_ _. empty_delegation), totalDelegated = (\<lambda>_. 0),
                totalDelegatedBy = (\<lambda>_. 0), votingPowerCheckpoints = (\<lambda>_. []),
                delegatorList = [], delegationTimestamps = (\<lambda>_ _. 0),
                delegatorsToOwners = (\<lambda>_. []), registry_owner = initialOwner,
                registry_log = []\<rparr>)"

definition registerDelegator ::
  "DelegateRegistry \<Rightarrow> env \<Rightarrow> string \<Rightarrow> string \<Rightarrow> string \<Rightarrow> error + DelegateRegistry" where
  "registerDelegator r e prof phil intr =
     (if length prof = 0 then Inl EmptyProfile
      else if registeredAt (delegators r (msg_sender e)) \<noteq> 0 then Inl AlreadyRegisteredDelegator
      else Inr (r\<lparr>delegators := (delegators r)(msg_sender e :=
                     \<lparr>profile = prof, votingPhilosophy = phil, interests = intr,
                      registeredAt = block_timestamp e, isActive = True\<rparr>),
                   delegatorList := delegatorList r @ [msg_sender e],
                   registry_log := registry_log r
                     @ [DelegatorRegistered (msg_sender e) prof phil intr]\<rparr>))"

definition updateDelegator ::
  "DelegateRegistry \<Rightarrow> env \<Rightarrow> string \<Rightarrow> string \<Rightarrow> string \<Rightarrow> error + DelegateRegistry" where
  "updateDelegator r e prof phil intr =
     (if length prof = 0 then Inl EmptyProfile
      else let info = delegators r (msg_sender e)
      in if registeredAt info = 0 then Inl NotRegisteredDelegator
         else Inr (r\<lparr>delegators := (delegators r)(msg_sender e :=
                        info\<lparr>profile := prof, votingPhilosophy := phil, interests := intr\<rparr>),
                      registry_log := registry_log r
                        @ [DelegatorUpdated (msg_sender e) prof phil intr]\<rparr>))"

definition deactivateDelegator :: "DelegateRegistry \<Rightarrow> env \<Rightarrow> error + DelegateRegistry" where
  "deactivateDelegator r e =
     (let info = delegators r (msg_sender e)
      in if registeredAt info = 0 then Inl NotRegisteredDelegator
         else Inr (r\<lparr>delegators := (delegators r)(msg_sender e := info\<lparr>isActive := False\<rparr>),
                      registry_log := registry_log r @ [DelegatorDeactivated (msg_sender e)]\<rparr>))"

text \<open>
  Modelled from the spec: OpenZeppelin's \<open>Checkpoints.Trace208.push\<close> is not part of the
  repository; the spec says that a voting-power checkpoint, indexed by block, is appended
  for the delegate.  The two explicit casts of \<open>_updateVotingPowerCheckpoint\<close> truncate.
\<close>

definition updateVotingPowerCheckpoint :: "DelegateRegistry \<Rightarrow> env \<Rightarrow> address \<Rightarrow> DelegateRegistry" where
  "updateVotingPowerCheckpoint r e dlg =
     r\<lparr>votingPowerCheckpoints := (votingPowerCheckpoints r)(dlg :=
         votingPowerCheckpoints r dlg
           @ [(block_number e mod 2 ^ 48, totalDelegated r dlg mod 2 ^ 208)])\<rparr>"

text \<open>\<open>delegate\<close>.  The registry lives at address \<open>this\<close>; the token is the second
  component of the state, and \<open>safeTransferFrom\<close> reverts when the token does.\<close>

definition delegate ::
  "address \<Rightarrow> DelegateRegistry \<times> vTON \<Rightarrow> env \<Rightarrow> address \<Rightarrow> nat
     \<Rightarrow> error + (DelegateRegistry \<times> vTON)" where
  "delegate this w e dlg amt =
     (let r = fst w; t = snd w; sender = msg_sender e; now = block_timestamp e
      in if dlg = 0 then Inl ZeroAddress
         else if amt = 0 then Inl ZeroAmount
         else if dlg = sender then Inl SelfDelegationNotAllowed
         else if registeredAt (delegators r dlg) = 0 \<or> \<not> isActive (delegators r dlg)
              then Inl DelegatorNotActive
         else case checked_mul (totalSupply t) (delegationCap r) of Inl err \<Rightarrow> Inl err
         | Inr p \<Rightarrow>
         (let maxDelegation = p div MAX_CAP
          in case checked_add (totalDelegated r dlg) amt of Inl err \<Rightarrow> Inl err
          | Inr newTotal \<Rightarrow>
            if newTotal > maxDelegation then Inl DelegationCapExceeded
            else case erc20_transferFrom t this sender this amt of Inl err \<Rightarrow> Inl err
            | Inr t' \<Rightarrow>
            (let d0 = delegations r sender dlg
             in case checked_add (amount d0) amt of Inl err \<Rightarrow> Inl err
             | Inr newAmount \<Rightarrow>
               case (if autoExpiryPeriod r > 0 then checked_add now (autoExpiryPeriod r)
                     else Inr (expiresAt d0)) of Inl err \<Rightarrow> Inl err
               | Inr newExpiry \<Rightarrow>
                 case checked_add (totalDelegatedBy r sender) amt of Inl err \<Rightarrow> Inl err
                 | Inr newTotalBy \<Rightarrow>
                   (let d1 = \<lparr>delegator = dlg, amount = newAmount, delegatedAt = now,
                              expiresAt = newExpiry\<rparr>;
                        r1 = r\<lparr>delegations := (delegations r)(sender :=
                                 (delegations r sender)(dlg := d1)),
                               totalDelegated := (totalDelegated r)(dlg := newTotal),
                               totalDelegatedBy := (totalDelegatedBy r)(sender := newTotalBy),
                               delegatorsToOwners :=
                                 (if delegationTimestamps r dlg sender = 0
                                  then (delegatorsToOwners r)(dlg :=
                                          delegatorsToOwners r dlg @ [sender])
                                  else delegatorsToOwners r),
                               delegationTimestamps := (delegationTimestamps r)(dlg :=
                                 (delegationTimestamps r dlg)(sender := now))\<rparr>;
                        r2 = updateVotingPowerCheckpoint r1 e dlg
                    in Inr (r2\<lparr>registry_log := registry_log r2
                                  @ [Delegated sender dlg amt newExpiry]\<rparr>, t')))))"

definition undelegate ::
  "address \<Rightarrow> DelegateRegistry \<times> vTON \<Rightarrow> env \<Rightarrow> address \<Rightarrow> nat
     \<Rightarrow> error + (DelegateRegistry \<times> vTON)" where
  "undelegate this w e dlg amt =
     (let r = fst w; t = snd w; sender = msg_sender e
      in if dlg = 0 then Inl ZeroAddress
         else if amt = 0 then Inl ZeroAmount
         else let d0 = delegations r sender dlg
         in if amount d0 < amt then Inl InsufficientDelegation
            else case checked_sub (totalDelegated r dlg) amt of Inl err \<Rightarrow> Inl err
            | Inr newTotal \<Rightarrow>
              case checked_sub (totalDelegatedBy r sender) amt of Inl err \<Rightarrow> Inl err
              | Inr newTotalBy \<Rightarrow>
                (let d1 = d0\<lparr>amount := amount d0 - amt\<rparr>;
                     r1 = r\<lparr>delegations := (delegations r)(sender :=
                              (delegations r sender)(dlg :=
                                 (if amount d1 = 0 then empty_delegation else d1))),
                            delegationTimestamps :=
                              (if amount d1 = 0
                               then (delegationTimestamps r)(dlg :=
                                       (delegationTimestamps r dlg)(sender := 0))
                               else delegationTimestamps r),
                            totalDelegated := (totalDelegated r)(dlg := newTotal),
                            totalDelegatedBy := (totalDelegatedBy r)(sender := newTotalBy)\<rparr>;
                     r2 = updateVotingPowerCheckpoint r1 e dlg
                 in case erc20_transfer t this sender amt of Inl err \<Rightarrow> Inl err
                    | Inr t' \<Rightarrow>
                        Inr (r2\<lparr>registry_log := registry_log r2
                                   @ [Undelegated sender dlg amt]\<rparr>, t')))"

definition redelegate ::
  "address \<Rightarrow> DelegateRegistry \<times> vTON \<Rightarrow> env \<Rightarrow> address \<Rightarrow> address \<Rightarrow> nat
     \<Rightarrow> error + (DelegateRegistry \<times> vTON)" where
  "redelegate this w e fromDelegator toDelegator amt =
     (let r = fst w; t = snd w; sender = msg_sender e; now = block_timestamp e
      in if fromDelegator = 0 \<or> toDelegator = 0 then Inl ZeroAddress
         else if amt = 0 then Inl ZeroAmount
         else if toDelegator = sender then Inl SelfDelegationNotAllowed
         else if registeredAt (delegators r toDelegator) = 0
                 \<or> \<not> isActive (delegators r toDelegator)
              then Inl DelegatorNotActive
         else if amount (delegations r sender fromDelegator) < amt
              then Inl InsufficientDelegation
         else case checked_mul (totalSupply t) (delegationCap r) of Inl err \<Rightarrow> Inl err
         | Inr p \<Rightarrow>
         (let maxDelegation = p div MAX_CAP
          in case checked_add (totalDelegated r toDelegator) amt of Inl err \<Rightarrow> Inl err
          | Inr capSum \<Rightarrow>
            if capSum > maxDelegation then Inl DelegationCapExceeded
            else
            (let f0 = delegations r sender fromDelegator;
                 f1 = f0\<lparr>amount := amount f0 - amt\<rparr>;
                 r1 = r\<lparr>delegations := (delegations r)(sender :=
                          (delegations r sender)(fromDelegator :=
                             (if amount f1 = 0 then empty_delegation else f1))),
                        delegationTimestamps :=
                          (if amount f1 = 0
                           then (delegationTimestamps r)(fromDelegator :=
                                   (delegationTimestamps r fromDelegator)(sender := 0))
                           else delegationTimestamps r)\<rparr>
             in case checked_sub (totalDelegated r1 fromDelegator) amt of Inl err \<Rightarrow> Inl err
             | Inr newFromTotal \<Rightarrow>
               (let r2 = r1\<lparr>totalDelegated := (totalDelegated r1)(fromDelegator := newFromTotal)\<rparr>;
                    t0 = delegations r2 sender toDelegator
                in case checked_add (amount t0) amt of Inl err \<Rightarrow> Inl err
                | Inr newAmount \<Rightarrow>
                  case (if autoExpiryPeriod r2 > 0 then checked_add now (autoExpiryPeriod r2)
                        else Inr (expiresAt t0)) of Inl err \<Rightarrow> Inl err
                  | Inr newExpiry \<Rightarrow>
                    case checked_add (totalDelegated r2 toDelegator) amt of Inl err \<Rightarrow> Inl err
                    | Inr newToTotal \<Rightarrow>
                      (let t1 = \<lparr>delegator = toDelegator, amount = newAmount,
                                 delegatedAt = now, expiresAt = newExpiry\<rparr>;
                           r3 = r2\<lparr>delegations := (delegations r2)(sender :=
                                    (delegations r2 sender)(toDelegator := t1)),
                                  totalDelegated := (totalDelegated r2)(toDelegator := newToTotal),
                                  delegationTimestamps := (delegationTimestamps r2)(toDelegator :=
                                    (delegationTimestamps r2 toDelegator)(sender := now))\<rparr>;
                           r4 = updateVotingPowerCheckpoint r3 e fromDelegator;
                           r5 = updateVotingPowerCheckpoint r4 e toDelegator
                       in Inr (r5\<lparr>registry_log := registry_log r5
                                     @ [Undelegated sender fromDelegator amt,
                                        Delegated sender toDelegator amt newExpiry]\<rparr>, t))))))"

text \<open>\<open>getVotingPower\<close>: the loop over \<open>_delegatorsToOwners[delegator]\<close>, with the
  running sum \<open>votingPower\<close> as accumulator; both block arguments are ignored by the
  source.\<close>

fun votingPowerLoop ::
  "DelegateRegistry \<Rightarrow> address \<Rightarrow> nat \<Rightarrow> nat \<Rightarrow> address list \<Rightarrow> nat \<Rightarrow> error + nat" where
  "votingPowerLoop r dlg cutoffTime now [] votingPower = Inr votingPower"
| "votingPowerLoop r dlg cutoffTime now (ownr # rest) votingPower =
     (let dAt = delegationTimestamps r dlg ownr
      in if dAt > 0 \<and> dAt \<le> cutoffTime
         then (let delegation = delegations r ownr dlg
               in if amount delegation > 0
                  then (if expiresAt delegation = 0 \<or> expiresAt delegation > now
                        then (case checked_add votingPower (amount delegation) of
                                Inl err \<Rightarrow> Inl err
                              | Inr vp \<Rightarrow> votingPowerLoop r dlg cutoffTime now rest vp)
                        else votingPowerLoop r dlg cutoffTime now rest votingPower)
                  else votingPowerLoop r dlg cutoffTime now rest votingPower)
         else votingPowerLoop r dlg cutoffTime now rest votingPower)"

definition getVotingPower ::
  "DelegateRegistry \<Rightarrow> env \<Rightarrow> address \<Rightarrow> nat \<Rightarrow> nat \<Rightarrow> error + nat" where
  "getVotingPower r e dlg blockNumber snapshotBlock =
     (case checked_sub (block_timestamp e) (delegationPeriodRequirement r) of
        Inl err \<Rightarrow> Inl err
      | Inr cutoffTime \<Rightarrow>
          votingPowerLoop r dlg cutoffTime (block_timestamp e) (delegatorsToOwners r dlg) 0)"

definition setDelegationCap :: "DelegateRegistry \<Rightarrow> env \<Rightarrow> nat \<Rightarrow> error + DelegateRegistry" where
  "setDelegationCap r e cap =
     (if msg_sender e \<noteq> registry_owner r then Inl OwnableUnauthorizedAccount
      else if cap > MAX_CAP then Inl InvalidCap
      else Inr (r\<lparr>delegationCap := cap,
                   registry_log := registry_log r
                     @ [DelegationCapUpdated (delegationCap r) cap]\<rparr>))"

definition setDelegationPeriodRequirement ::
  "DelegateRegistry \<Rightarrow> env \<Rightarrow> nat \<Rightarrow> error + DelegateRegistry" where
  "setDelegationPeriodRequirement r e period =
     (if msg_sender e \<noteq> registry_owner r then Inl OwnableUnauthorizedAccount
      else Inr (r\<lparr>delegationPeriodRequirement := period,
                   registry_log := registry_log r
                     @ [DelegationPeriodUpdated (delegationPeriodRequirement r) period]\<rparr>))"

definition setAutoExpiryPeriod :: "DelegateRegistry \<Rightarrow> env \<Rightarrow> nat \<Rightarrow> error + DelegateRegistry" where
  "setAutoExpiryPeriod r e period =
     (if msg_sender e \<noteq> registry_owner r then Inl OwnableUnauthorizedAccount
      else Inr (r\<lparr>autoExpiryPeriod := period,
                   registry_log := registry_log r
                     @ [AutoExpiryUpdated (autoExpiryPeriod r) period]\<rparr>))"

text \<open>Every external, state-changing function of the registry as one call.  A call that
  reverts leaves the registry and the token as they were; \<open>registry_run\<close> executes a list of
  calls, each with its own transaction context, in that way.\<close>

datatype registry_call =
    Call_registerDelegator string string string
  | Call_updateDelegator string string string
  | Call_deactivateDelegator
  | Call_delegate address nat
  | Call_undelegate address nat
  | Call_redelegate address address nat
  | Call_setDelegationCap nat
  | Call_setDelegationPeriodRequirement nat
  | Call_setAutoExpiryPeriod nat

definition lift_registry ::
  "DelegateRegistry \<times> vTON \<Rightarrow> error + DelegateRegistry \<Rightarrow> error + (DelegateRegistry \<times> vTON)" where
  "lift_registry w res = (case res of Inl err \<Rightarrow> Inl err | Inr r \<Rightarrow> Inr (r, snd w))"

fun registry_step ::
  "address \<Rightarrow> DelegateRegistry \<times> vTON \<Rightarrow> env \<Rightarrow> registry_call
     \<Rightarrow> error + (DelegateRegistry \<times> vTON)" where
  "registry_step this w e (Call_registerDelegator p v i) =
     lift_registry w (registerDelegator (fst w) e p v i)"
| "registry_step this w e (Call_updateDelegator p v i) =
     lift_registry w (updateDelegator (fst w) e p v i)"
| "registry_step this w e Call_deactivateDelegator =
     lift_registry w (deactivateDelegator (fst w) e)"
| "registry_step this w e (Call_delegate d a) = delegate this w e d a"
| "registry_step this w e (Call_undelegate d a) = undelegate this w e d a"
| "registry_step this w e (Call_redelegate f t a) = redelegate this w e f t a"
| "registry_step this w e (Call_setDelegationCap c) =
     lift_registry w (setDelegationCap (fst w) e c)"
| "registry_step this w e (Call_setDelegationPeriodRequirement p) =
     lift_registry w (setDelegationPeriodRequirement (fst w) e p)"
| "registry_step this w e (Call_setAutoExpiryPeriod p) =
     lift_registry w (setAutoExpiryPeriod (fst w) e p)"

definition registry_exec ::
  "address \<Rightarrow> DelegateRegistry \<times> vTON \<Rightarrow> env \<times> registry_call \<Rightarrow> DelegateRegistry \<times> vTON" where
  "registry_exec this w ec =
     (case registry_step this w (fst ec) (snd ec) of Inl err \<Rightarrow> w | Inr w' \<Rightarrow> w')"

fun registry_run ::
  "address \<Rightarrow> DelegateRegistry \<times> vTON \<Rightarrow> (env \<times> registry_call) list \<Rightarrow> DelegateRegistry \<times> vTON" where
  "registry_run this w [] = w"
| "registry_run this w (ec # rest) = registry_run this (registry_exec this w ec) rest"

text \<open>The bound of the delegation cap for one delegator, as \<open>delegate\<close> computes it.\<close>

definition within_cap :: "DelegateRegistry \<times> vTON \<Rightarrow> address \<Rightarrow> bool" where
  "within_cap w dlg =
     (totalDelegated (fst w) dlg \<le> totalSupply (snd w) * delegationCap (fst w) div MAX_CAP)"

text \<open>A call lowers the cap when it is \<open>setDelegationCap\<close> with a smaller value.\<close>

fun lowers_cap :: "DelegateRegistry \<Rightarrow> registry_call \<Rightarrow> bool" where
  "lowers_cap r (Call_setDelegationCap c) = (c < delegationCap r)"
| "lowers_cap r other = False"

fun never_lowers_cap ::
  "address \<Rightarrow> DelegateRegistry \<times> vTON \<Rightarrow> (env \<times> registry_call) list \<Rightarrow> bool" where
  "never_lowers_cap this w [] = True"
| "never_lowers_cap this w (ec # rest) =
     (\<not> lowers_cap (fst w) (snd ec) \<and> never_lowers_cap this (registry_exec this w ec) rest)"

text \<open>What an owner has in escrow: the sum of the amounts of the owner's delegation
  records, over the delegators for which the record is not empty.\<close>

definition delegatedSum :: "DelegateRegistry \<Rightarrow> address \<Rightarrow> nat" where
  "delegatedSum r ownr =
     (\<Sum>d | amount (delegations r ownr d) \<noteq> 0. amount (delegations r ownr d))"

fun is_delegation_call :: "registry_call \<Rightarrow> bool" where
  "is_delegation_call (Call_delegate d a) = True"
| "is_delegation_call (Call_undelegate d a) = True"
| "is_delegation_call (Call_redelegate f t a) = True"
| "is_delegation_call other = False"

subsection \<open>Concrete runs of the registry\<close>

text \<open>The actors of the repository's tests: the owner at address 1, a holder \<open>user1\<close> with
  10000 tokens who has approved the registry for the maximal allowance, and two delegators.
  The registry itself is at address 100.\<close>

definition user1 :: address where "user1 = 10"
definition delegate1 :: address where "delegate1 = 20"
definition delegate2 :: address where "delegate2 = 30"
definition registryAddress :: address where "registryAddress = 100"

definition test_token :: vTON where
  "test_token = \<lparr>balanceOf = (\<lambda>_. 0)(10 := 10000),
     allowance = (\<lambda>_ _. 0)(10 := (\<lambda>_. 0)(100 := MAX_UINT256)),
     totalSupply = 10000, emissionRatio = MAX_EMISSION_RATIO, minters = (\<lambda>_. False),
     vton_owner = 1, vton_log = []\<rparr>"

definition test_registry :: DelegateRegistry where
  "test_registry = \<lparr>delegationCap = DEFAULT_CAP, delegationPeriodRequirement = DEFAULT_PERIOD,
     autoExpiryPeriod = 0, delegators = (\<lambda>_. empty_delegator),
     delegations = (\<lambda>_ _. empty_delegation), totalDelegated = (\<lambda>_. 0),
     totalDelegatedBy = (\<lambda>_. 0), votingPowerCheckpoints = (\<lambda>_. []),
     delegatorList = [], delegationTimestamps = (\<lambda>_ _. 0),
     delegatorsToOwners = (\<lambda>_. []), registry_owner = 1, registry_log = []\<rparr>"

text \<open>Run 1: a delegation of 100, after which the owner sets the cap to zero.\<close>

definition run_cap_lowered :: "DelegateRegistry \<times> vTON" where
  "run_cap_lowered = registry_run 100 (test_registry, test_token)
     [(tx_at 20 1000, Call_registerDelegator ''Alice'' ''Philosophy'' ''Interests''),
      (tx_at 10 1000, Call_delegate 20 100),
      (tx_at 1 2000, Call_setDelegationCap 0)]"

text \<open>Run 2: \<open>user1\<close> delegates 100, withdraws all of it, and delegates 50 at time 2000.\<close>

definition run_delegate_twice :: "DelegateRegistry \<times> vTON" where
  "run_delegate_twice = registry_run 100 (test_registry, test_token)
     [(tx_at 20 1000, Call_registerDelegator ''Alice'' ''Philosophy'' ''Interests''),
      (tx_at 10 1000, Call_delegate 20 100),
      (tx_at 10 1500, Call_undelegate 20 100),
      (tx_at 10 2000, Call_delegate 20 50)]"

text \<open>Run 3: \<open>user1\<close> delegates 100 to the first delegator, moves it to the second with
  \<open>redelegate\<close>, and adds 50 to the second with \<open>delegate\<close> at time 2000.\<close>

definition run_redelegate_then_delegate :: "DelegateRegistry \<times> vTON" where
  "run_redelegate_then_delegate = registry_run 100 (test_registry, test_token)
     [(tx_at 20 1000, Call_registerDelegator ''Alice'' ''Philosophy1'' ''Interests1''),
      (tx_at 30 1000, Call_registerDelegator ''Bob'' ''Philosophy2'' ''Interests2''),
      (tx_at 10 1000, Call_delegate 20 100),
      (tx_at 10 1500, Call_redelegate 20 30 100),
      (tx_at 10 2000, Call_delegate 30 50)]"

text \<open>Run 4: \<open>user1\<close> registers as a delegator (the first step of the repository's test
  \<open>test_SelfDelegationAllowed\<close>).\<close>

definition run_user1_registered :: "DelegateRegistry \<times> vTON" where
  "run_user1_registered = registry_run 100 (test_registry, test_token)
     [(tx_at 10 1000, Call_registerDelegator ''User1'' ''Philosophy'' ''Interests'')]"

text \<open>Run 5: both delegators registered, nothing delegated yet; and three delegation calls
  of \<open>user1\<close> from there.\<close>

definition run_two_registered :: "DelegateRegistry \<times> vTON" where
  "run_two_registered = registry_run 100 (test_registry, test_token)
     [(tx_at 20 1000, Call_registerDelegator ''Alice'' ''Philosophy1'' ''Interests1''),
      (tx_at 30 1000, Call_registerDelegator ''Bob'' ''Philosophy2'' ''Interests2'')]"

definition user1_calls :: "(env \<times> registry_call) list" where
  "user1_calls = [(tx_at 10 1000, Call_delegate 20 100),
                  (tx_at 10 1500, Call_redelegate 20 30 30),
                  (tx_at 10 2000, Call_undelegate 20 40)]"

text \<open>Run 6: a delegation, a partial withdrawal, and the owner raising the cap.\<close>

definition cap_raised_calls :: "(env \<times> registry_call) list" where
  "cap_raised_calls =
     [(tx_at 20 1000, Call_registerDelegator ''Alice'' ''Philosophy'' ''Interests''),
      (tx_at 10 1000, Call_delegate 20 2000),
      (tx_at 10 1500, Call_undelegate 20 500),
      (tx_at 1 2000, Call_setDelegationCap 3000),
      (tx_at 10 2500, Call_delegate 20 1500)]"

section \<open>DAOGovernor: cancellation\<close>

text \<open>
  Modelled from the spec: the contract \<open>DAOGovernor\<close> is not part of the sources at hand
  (only its tests are).  The derived proposal state and \<open>cancel\<close> follow section 4.4 of the
  spec: Pending before the vote-start block, Active within the voting window, then
  Succeeded when the quorum is met and the for-votes exceed the against-votes, Defeated
  otherwise; a succeeded proposal can be queued, and a queued one is Expired once the time
  is past eta plus the timelock's grace period; \<open>cancel\<close> is permitted to the proposer unless
  the state is Executed, Canceled or Expired, and to the proposal guardian while the state
  is Pending, Active, Succeeded or Queued.  The quorum test is the spec's formula; a zero
  denominator, on which the spec is silent, counts as a quorum that is not met.
\<close>

datatype ProposalState =
  Pending | Active | Canceled | Defeated | Succeeded | Queued | Expired | Executed

record Proposal =
  proposer :: address
  voteStart :: nat
  voteEnd :: nat
  forVotes :: nat
  againstVotes :: nat
  abstainVotes :: nat
  proposal_canceled :: bool
  proposal_executed :: bool
  proposal_queued :: bool
  proposal_eta :: nat

record DAOGovernor =
  proposalGuardian :: address
  quorum :: nat
  totalDelegatedSupplyProxy :: nat

definition quorumReached :: "DAOGovernor \<Rightarrow> Proposal \<Rightarrow> bool" where
  "quorumReached g p =
     (totalDelegatedSupplyProxy g \<noteq> 0 \<and>
      (forVotes p + againstVotes p + abstainVotes p) * 10000 div totalDelegatedSupplyProxy g
        \<ge> quorum g)"

definition state :: "DAOGovernor \<Rightarrow> env \<Rightarrow> Proposal \<Rightarrow> ProposalState" where
  "state g e p =
     (if proposal_canceled p then Canceled
      else if proposal_executed p then Executed
      else if block_number e < voteStart p then Pending
      else if block_number e \<le> voteEnd p then Active
      else if \<not> (quorumReached g p \<and> forVotes p > againstVotes p) then Defeated
      else if \<not> proposal_queued p then Succeeded
      else if block_timestamp e > proposal_eta p + GRACE_PERIOD then Expired
      else Queued)"

definition cancel :: "DAOGovernor \<Rightarrow> env \<Rightarrow> Proposal \<Rightarrow> error + Proposal" where
  "cancel g e p =
     (let st = state g e p
      in if msg_sender e = proposer p
         then (if st = Executed \<or> st = Canceled \<or> st = Expired then Inl InvalidProposalState
               else Inr (p\<lparr>proposal_canceled := True\<rparr>))
         else if msg_sender e = proposalGuardian g
         then (if st = Pending \<or> st = Active \<or> st = Succeeded \<or> st = Queued
               then Inr (p\<lparr>proposal_canceled := True\<rparr>)
               else Inl InvalidProposalState)
         else Inl NotAuthorizedToCancel)"

text \<open>A governor and two proposals for concrete runs, after the repository's tests: the
  guardian is address 50 and \<open>user1\<close> (address 10) is the proposer.  The first proposal got
  no votes; the second one passed and was queued with eta 700000.\<close>

definition test_governor :: DAOGovernor where
  "test_governor = \<lparr>proposalGuardian = 50, quorum = 400, totalDelegatedSupplyProxy = 20000\<rparr>"

definition unvoted_proposal :: Proposal where
  "unvoted_proposal = \<lparr>proposer = 10, voteStart = 100, voteEnd = 200, forVotes = 0,
     againstVotes = 0, abstainVotes = 0, proposal_canceled = False, proposal_executed = False,
     proposal_queued = False, proposal_eta = 0\<rparr>"

definition queued_proposal :: Proposal where
  "queued_proposal = \<lparr>proposer = 10, voteStart = 100, voteEnd = 200, forVotes = 20000,
     againstVotes = 0, abstainVotes = 0, proposal_canceled = False, proposal_executed = False,
     proposal_queued = True, proposal_eta = 700000\<rparr>"

section \<open>Properties of vTON\<close>











section \<open>Properties of the Timelock\<close>

text \<open>The concrete timelock is what the constructor, \<open>setGovernor\<close> and \<open>queueTransaction\<close>
  produce.\<close>

lemma queued_timelock_reached:
  "Timelock_constructor 1 604800 = Inr (governed_timelock\<lparr>governor := 0, timelock_log := []\<rparr>)
   \<and> setGovernor (governed_timelock\<lparr>governor := 0, timelock_log := []\<rparr>) (tx_at 1 0) 5
        = Inr governed_timelock
   \<and> queueTransaction governed_timelock (tx_at 5 1000) 7 0 (Bytes [])
        = Inr (queued_timelock, queued_key)"
  by (simp add: Timelock_constructor_def setGovernor_def queueTransaction_def
      governed_timelock_def queued_timelock_def queued_key_def tx_at_def checked_add_def
      MINIMUM_DELAY_def MAXIMUM_DELAY_def MAX_UINT256_def Let_def)

text \<open>
  Claim C5, as stated, fails: with the entry queued, not canceled and the time inside the
  window, \<open>executeTransaction\<close> still reverts, with \<open>ExecutionFailed\<close>, when the
  low-level call to the target fails.
\<close>

theorem executeTransaction_iff_counterexample:
  "msg_sender (tx_at 5 605800) = governor queued_timelock
   \<and> queuedTransactions queued_timelock (7, 0, Bytes [], 605800)
   \<and> \<not> canceledTransactions queued_timelock (7, 0, Bytes [], 605800)
   \<and> block_timestamp (tx_at 5 605800) \<ge> 605800
   \<and> block_timestamp (tx_at 5 605800) \<le> 605800 + GRACE_PERIOD
   \<and> executeTransaction queued_timelock (tx_at 5 605800) (False, Bytes []) 7 0 (Bytes []) 605800
       = Inl ExecutionFailed"
  by (simp add: executeTransaction_def queued_timelock_def governed_timelock_def queued_key_def
      tx_at_def checked_add_def GRACE_PERIOD_def MAX_UINT256_def Let_def)

text \<open>
  Claim C5, amended.  Called by the governor (at a time for which \<open>now + GRACE_PERIOD\<close> fits
  into 256 bits), \<open>executeTransaction\<close> succeeds if and only if the entry is queued, not
  canceled, \<open>now \<ge> eta\<close>, \<open>now \<le> eta + GRACE_PERIOD\<close> and the call to the target
  succeeds.  Otherwise it reverts with the error of the first failing condition, in this
  order: not queued, already canceled, not ready (\<open>now < eta\<close>), expired
  (\<open>now > eta + GRACE_PERIOD\<close>), execution failed.  On success the entry is no longer
  queued, the bytes returned are those of the call, and a second execution of the same tuple
  reverts with \<open>TransactionNotQueued\<close>.
\<close>

theorem executeTransaction_outcome:
  assumes "msg_sender e = governor s"
    and "block_timestamp e + GRACE_PERIOD \<le> MAX_UINT256"
  shows "((\<exists>s' res. executeTransaction s e cr tgt val dat eta = Inr (s', res)) \<longleftrightarrow>
            (queuedTransactions s (tgt, val, dat, eta)
             \<and> \<not> canceledTransactions s (tgt, val, dat, eta)
             \<and> block_timestamp e \<ge> eta \<and> block_timestamp e \<le> eta + GRACE_PERIOD
             \<and> fst cr))
       \<and> (\<not> queuedTransactions s (tgt, val, dat, eta) \<longrightarrow>
             executeTransaction s e cr tgt val dat eta = Inl TransactionNotQueued)
       \<and> (queuedTransactions s (tgt, val, dat, eta)
             \<and> canceledTransactions s (tgt, val, dat, eta) \<longrightarrow>
             executeTransaction s e cr tgt val dat eta = Inl TransactionAlreadyCanceled)
       \<and> (queuedTransactions s (tgt, val, dat, eta)
             \<and> \<not> canceledTransactions s (tgt, val, dat, eta)
             \<and> block_timestamp e < eta \<longrightarrow>
             executeTransaction s e cr tgt val dat eta = Inl TransactionNotReady)
       \<and> (queuedTransactions s (tgt, val, dat, eta)
             \<and> \<not> canceledTransactions s (tgt, val, dat, eta)
             \<and> block_timestamp e \<ge> eta \<and> block_timestamp e > eta + GRACE_PERIOD \<longrightarrow>
             executeTransaction s e cr tgt val dat eta = Inl TransactionExpired)
       \<and> (queuedTransactions s (tgt, val, dat, eta)
             \<and> \<not> canceledTransactions s (tgt, val, dat, eta)
             \<and> block_timestamp e \<ge> eta \<and> block_timestamp e \<le> eta + GRACE_PERIOD
             \<and> \<not> fst cr \<longrightarrow>
             executeTransaction s e cr tgt val dat eta = Inl ExecutionFailed)
       \<and> (\<forall>s' res e2 cr2.
             executeTransaction s e cr tgt val dat eta = Inr (s', res)
             \<and> msg_sender e2 = governor s' \<longrightarrow>
               \<not> queuedTransactions s' (tgt, val, dat, eta)
               \<and> res = snd cr
               \<and> executeTransaction s' e2 cr2 tgt val dat eta = Inl TransactionNotQueued)"
  using assms
  by (auto simp: executeTransaction_def checked_add_def Let_def split: if_splits)

theorem executeTransaction_outcome_witness:
  "msg_sender (tx_at 5 605800) = governor queued_timelock
   \<and> block_timestamp (tx_at 5 605800) + GRACE_PERIOD \<le> MAX_UINT256
   \<and> (\<exists>s' res. executeTransaction queued_timelock (tx_at 5 605800) (True, Bytes [1])
                    7 0 (Bytes []) 605800 = Inr (s', res))"
proof -
  have h1: "msg_sender (tx_at 5 605800) = governor queued_timelock"
    by (simp add: tx_at_def queued_timelock_def governed_timelock_def)
  have h2: "block_timestamp (tx_at 5 605800) + GRACE_PERIOD \<le> MAX_UINT256"
    by (simp add: tx_at_def GRACE_PERIOD_def MAX_UINT256_def)
  have cond: "queuedTransactions queued_timelock (7, 0, Bytes [], 605800)
      \<and> \<not> canceledTransactions queued_timelock (7, 0, Bytes [], 605800)
      \<and> block_timestamp (tx_at 5 605800) \<ge> 605800
      \<and> block_timestamp (tx_at 5 605800) \<le> 605800 + GRACE_PERIOD
      \<and> fst (True, Bytes [1])"
    by (simp add: queued_timelock_def governed_timelock_def queued_key_def tx_at_def
        GRACE_PERIOD_def)
  from executeTransaction_outcome [OF h1 h2, of "(True, Bytes [1])" 7 0 "Bytes []" 605800] cond
  have "\<exists>s' res. executeTransaction queued_timelock (tx_at 5 605800) (True, Bytes [1])
                    7 0 (Bytes []) 605800 = Inr (s', res)"
    by blast
  with h1 h2 show ?thesis by blast
qed

section \<open>Properties of the DelegateRegistry\<close>

subsection \<open>Concrete runs\<close>

lemmas run_defs = test_registry_def test_token_def tx_at_def
  registry_exec_def lift_registry_def registerDelegator_def delegate_def undelegate_def
  redelegate_def setDelegationCap_def checked_add_def checked_sub_def checked_mul_def
  erc20_transferFrom_def erc20_transfer_def updateVotingPowerCheckpoint_def
  empty_delegator_def empty_delegation_def
  MAX_UINT256_def MAX_CAP_def DEFAULT_CAP_def DEFAULT_PERIOD_def Let_def getVotingPower_def

text \<open>
  Claim C4.  The claim, and the repository's test \<open>test_SelfDelegationAllowed\<close>, expect a
  registered, active delegator with balance and allowance to delegate to itself.  The
  source of \<open>delegate\<close> has the guard \<open>delegator == msg.sender\<close>: the call reverts with
  \<open>SelfDelegationNotAllowed\<close>.
\<close>

theorem self_delegation_reverts:
  "isActive (delegators (fst run_user1_registered) user1)
   \<and> registeredAt (delegators (fst run_user1_registered) user1) \<noteq> 0
   \<and> balanceOf (snd run_user1_registered) user1 \<ge> 1000
   \<and> allowance (snd run_user1_registered) user1 registryAddress \<ge> 1000
   \<and> delegate registryAddress run_user1_registered (tx_at user1 1000) user1 1000
       = Inl SelfDelegationNotAllowed"
  by (simp add: run_user1_registered_def user1_def registryAddress_def run_defs)

text \<open>
  Claim C3.  A delegation whose last \<open>delegate\<close> call was at time 2000 should count with
  its full amount from time \<open>2000 + delegationPeriodRequirement\<close> on.  In the second run
  the owner is listed twice for the delegator (the list entry is pushed again after a full
  withdrawal), and the delegation of 50 counts as 100.  In the third run the delegation to
  the second delegator was created by \<open>redelegate\<close>, which does not list the owner, and the
  later \<open>delegate\<close> finds a nonzero timestamp and does not list the owner either: the
  delegation of 150 counts as 0.
\<close>

theorem voting_power_miscounted:
  "delegationTimestamps (fst run_delegate_twice) delegate1 user1 = 2000
   \<and> amount (delegations (fst run_delegate_twice) user1 delegate1) = 50
   \<and> expiresAt (delegations (fst run_delegate_twice) user1 delegate1) = 0
   \<and> totalDelegated (fst run_delegate_twice) delegate1 = 50
   \<and> delegatorsToOwners (fst run_delegate_twice) delegate1 = [user1, user1]
   \<and> getVotingPower (fst run_delegate_twice)
        (tx_at 99 (2000 + delegationPeriodRequirement (fst run_delegate_twice))) delegate1 0 0
       = Inr 100
   \<and> delegatorsToOwners (fst run_redelegate_then_delegate) delegate2 = []
   \<and> delegationTimestamps (fst run_redelegate_then_delegate) delegate2 user1 = 2000
   \<and> amount (delegations (fst run_redelegate_then_delegate) user1 delegate2) = 150
   \<and> expiresAt (delegations (fst run_redelegate_then_delegate) user1 delegate2) = 0
   \<and> getVotingPower (fst run_redelegate_then_delegate)
        (tx_at 99 (2000 + delegationPeriodRequirement (fst run_redelegate_then_delegate)))
        delegate2 0 0
       = Inr 0"
  by (simp add: run_delegate_twice_def run_redelegate_then_delegate_def
      user1_def delegate1_def delegate2_def run_defs)

text \<open>
  Claim C1, as stated, fails: after a delegation of 100 the owner sets the cap to zero, and
  the total delegated to the delegator, still 100, exceeds \<open>totalSupply * cap / 10000 = 0\<close>.
\<close>

theorem cap_bound_counterexample:
  "totalDelegated (fst run_cap_lowered) delegate1 = 100
   \<and> totalSupply (snd run_cap_lowered) * delegationCap (fst run_cap_lowered) div 10000 = 0
   \<and> \<not> within_cap run_cap_lowered delegate1"
  by (simp add: run_cap_lowered_def within_cap_def delegate1_def run_defs)

subsection \<open>What the token and the three delegation calls change\<close>

lemma transferFrom_effect:
  assumes "erc20_transferFrom t spender from to v = Inr t'"
  shows "totalSupply t' = totalSupply t"
    and "from \<noteq> to \<Longrightarrow> balanceOf t' from + v = balanceOf t from"
  using assms
  by (auto simp: erc20_transferFrom_def erc20_transfer_def Let_def split: if_splits)

lemma transfer_effect:
  assumes "erc20_transfer t from to v = Inr t'"
  shows "totalSupply t' = totalSupply t"
    and "from \<noteq> to \<Longrightarrow> balanceOf t' to = balanceOf t to + v"
  using assms
  by (auto simp: erc20_transfer_def Let_def split: if_splits)

lemma delegate_effect:
  assumes "delegate this w e dlg amt = Inr w'"
  shows "erc20_transferFrom (snd w) this (msg_sender e) this amt = Inr (snd w')"
    and "(\<lambda>d. amount (delegations (fst w') (msg_sender e) d)) =
           (\<lambda>d. amount (delegations (fst w) (msg_sender e) d))
             (dlg := amount (delegations (fst w) (msg_sender e) dlg) + amt)"
    and "totalDelegated (fst w') = (totalDelegated (fst w))(dlg := totalDelegated (fst w) dlg + amt)"
    and "totalDelegated (fst w) dlg + amt \<le> totalSupply (snd w) * delegationCap (fst w) div MAX_CAP"
    and "delegationCap (fst w') = delegationCap (fst w)"
  using assms
  by (auto simp: delegate_def updateVotingPowerCheckpoint_def checked_add_def checked_mul_def
      Let_def fun_eq_iff split: if_splits sum.splits)

lemma undelegate_effect:
  assumes "undelegate this w e dlg amt = Inr w'"
  shows "erc20_transfer (snd w) this (msg_sender e) amt = Inr (snd w')"
    and "amt \<le> amount (delegations (fst w) (msg_sender e) dlg)"
    and "(\<lambda>d. amount (delegations (fst w') (msg_sender e) d)) =
           (\<lambda>d. amount (delegations (fst w) (msg_sender e) d))
             (dlg := amount (delegations (fst w) (msg_sender e) dlg) - amt)"
    and "totalDelegated (fst w') = (totalDelegated (fst w))(dlg := totalDelegated (fst w) dlg - amt)"
    and "delegationCap (fst w') = delegationCap (fst w)"
  using assms
  by (auto simp: undelegate_def updateVotingPowerCheckpoint_def checked_sub_def
      empty_delegation_def Let_def fun_eq_iff split: if_splits sum.splits)

lemma redelegate_effect:
  assumes "redelegate this w e f t amt = Inr w'"
  shows "snd w' = snd w"
    and "amt \<le> amount (delegations (fst w) (msg_sender e) f)"
    and "(\<lambda>d. amount (delegations (fst w') (msg_sender e) d)) =
           ((\<lambda>d. amount (delegations (fst w) (msg_sender e) d))
              (f := amount (delegations (fst w) (msg_sender e) f) - amt))
             (t := ((\<lambda>d. amount (delegations (fst w) (msg_sender e) d))
                      (f := amount (delegations (fst w) (msg_sender e) f) - amt)) t + amt)"
    and "totalDelegated (fst w') =
           ((totalDelegated (fst w))(f := totalDelegated (fst w) f - amt))
             (t := ((totalDelegated (fst w))(f := totalDelegated (fst w) f - amt)) t + amt)"
    and "amt \<le> totalDelegated (fst w) f"
    and "totalDelegated (fst w) t + amt \<le> totalSupply (snd w) * delegationCap (fst w) div MAX_CAP"
    and "delegationCap (fst w') = delegationCap (fst w)"
  using assms
  by (auto simp: redelegate_def updateVotingPowerCheckpoint_def checked_sub_def checked_add_def
      checked_mul_def empty_delegation_def Let_def fun_eq_iff split: if_splits sum.splits)


lemma supp_finite_update:
  fixes f g :: "'a \<Rightarrow> nat"
  assumes "finite {x. f x \<noteq> 0}" and "g = f(d := v)"
  shows "finite {x. g x \<noteq> 0}"
proof -
  have "{x. g x \<noteq> 0} \<subseteq> insert d {x. f x \<noteq> 0}" using assms(2) by auto
  with assms(1) show ?thesis by (meson finite_insert finite_subset)
qed

lemma supp_sum_update:
  fixes f g :: "'a \<Rightarrow> nat"
  assumes fin: "finite {x. f x \<noteq> 0}" and g: "g = f(d := v)"
  shows "(\<Sum>x | g x \<noteq> 0. g x) + f d = (\<Sum>x | f x \<noteq> 0. f x) + v"
proof -
  let ?A = "insert d {x. f x \<noteq> 0}"
  have finA: "finite ?A" using fin by simp
  have s1: "(\<Sum>x | g x \<noteq> 0. g x) = sum g ?A"
    by (rule sum.mono_neutral_left [OF finA]) (auto simp: g)
  have s2: "(\<Sum>x | f x \<noteq> 0. f x) = sum f ?A"
    by (rule sum.mono_neutral_left [OF finA]) auto
  have r1: "sum g ?A = g d + sum g (?A - {d})"
    by (rule sum.remove [OF finA]) simp
  have r2: "sum f ?A = f d + sum f (?A - {d})"
    by (rule sum.remove [OF finA]) simp
  have r3: "sum g (?A - {d}) = sum f (?A - {d})"
    by (rule sum.cong) (auto simp: g)
  have gd: "g d = v" by (simp add: g)
  show ?thesis unfolding s1 s2 r1 r2 r3 gd by simp
qed

lemma delegate_conserves:
  assumes step: "delegate this w e dlg amt = Inr w'"
    and ne: "msg_sender e \<noteq> this"
    and fin: "finite {d. amount (delegations (fst w) (msg_sender e) d) \<noteq> 0}"
  shows "balanceOf (snd w') (msg_sender e) + delegatedSum (fst w') (msg_sender e)
           = balanceOf (snd w) (msg_sender e) + delegatedSum (fst w) (msg_sender e)
         \<and> finite {d. amount (delegations (fst w') (msg_sender e) d) \<noteq> 0}"
proof -
  let ?f = "\<lambda>d. amount (delegations (fst w) (msg_sender e) d)"
  let ?f' = "\<lambda>d. amount (delegations (fst w') (msg_sender e) d)"
  have upd: "?f' = ?f(dlg := ?f dlg + amt)"
    using delegate_effect(2) [OF step] .
  have bal: "balanceOf (snd w') (msg_sender e) + amt = balanceOf (snd w) (msg_sender e)"
    using transferFrom_effect(2) [OF delegate_effect(1) [OF step]] ne by simp
  have sm: "(\<Sum>x | ?f' x \<noteq> 0. ?f' x) + ?f dlg = (\<Sum>x | ?f x \<noteq> 0. ?f x) + (?f dlg + amt)"
    using supp_sum_update [OF fin upd] .
  have fin': "finite {d. ?f' d \<noteq> 0}"
    using supp_finite_update [OF fin upd] .
  from sm bal fin' show ?thesis
    unfolding delegatedSum_def by simp
qed

lemma undelegate_conserves:
  assumes step: "undelegate this w e dlg amt = Inr w'"
    and ne: "msg_sender e \<noteq> this"
    and fin: "finite {d. amount (delegations (fst w) (msg_sender e) d) \<noteq> 0}"
  shows "balanceOf (snd w') (msg_sender e) + delegatedSum (fst w') (msg_sender e)
           = balanceOf (snd w) (msg_sender e) + delegatedSum (fst w) (msg_sender e)
         \<and> finite {d. amount (delegations (fst w') (msg_sender e) d) \<noteq> 0}"
proof -
  let ?f = "\<lambda>d. amount (delegations (fst w) (msg_sender e) d)"
  let ?f' = "\<lambda>d. amount (delegations (fst w') (msg_sender e) d)"
  have upd: "?f' = ?f(dlg := ?f dlg - amt)"
    using undelegate_effect(3) [OF step] .
  have le: "amt \<le> ?f dlg"
    using undelegate_effect(2) [OF step] .
  have bal: "balanceOf (snd w') (msg_sender e) = balanceOf (snd w) (msg_sender e) + amt"
    using transfer_effect(2) [OF undelegate_effect(1) [OF step]] ne by simp
  have sm: "(\<Sum>x | ?f' x \<noteq> 0. ?f' x) + ?f dlg = (\<Sum>x | ?f x \<noteq> 0. ?f x) + (?f dlg - amt)"
    using supp_sum_update [OF fin upd] .
  have fin': "finite {d. ?f' d \<noteq> 0}"
    using supp_finite_update [OF fin upd] .
  from sm bal le fin' show ?thesis
    unfolding delegatedSum_def by simp
qed

lemma redelegate_conserves:
  assumes step: "redelegate this w e f t amt = Inr w'"
    and fin: "finite {d. amount (delegations (fst w) (msg_sender e) d) \<noteq> 0}"
  shows "balanceOf (snd w') (msg_sender e) + delegatedSum (fst w') (msg_sender e)
           = balanceOf (snd w) (msg_sender e) + delegatedSum (fst w) (msg_sender e)
         \<and> finite {d. amount (delegations (fst w') (msg_sender e) d) \<noteq> 0}"
proof -
  let ?f = "\<lambda>d. amount (delegations (fst w) (msg_sender e) d)"
  let ?g = "?f(f := ?f f - amt)"
  let ?f' = "\<lambda>d. amount (delegations (fst w') (msg_sender e) d)"
  have upd: "?f' = ?g(t := ?g t + amt)"
    using redelegate_effect(3) [OF step] .
  have le: "amt \<le> ?f f"
    using redelegate_effect(2) [OF step] .
  have fing: "finite {d. ?g d \<noteq> 0}"
    using supp_finite_update [OF fin refl] .
  have sm1: "(\<Sum>x | ?g x \<noteq> 0. ?g x) + ?f f = (\<Sum>x | ?f x \<noteq> 0. ?f x) + (?f f - amt)"
    using supp_sum_update [OF fin refl] .
  have sm2: "(\<Sum>x | ?f' x \<noteq> 0. ?f' x) + ?g t = (\<Sum>x | ?g x \<noteq> 0. ?g x) + (?g t + amt)"
    using supp_sum_update [OF fing upd] .
  have fin': "finite {d. ?f' d \<noteq> 0}"
    using supp_finite_update [OF fing upd] .
  have "(\<Sum>x | ?f' x \<noteq> 0. ?f' x) = (\<Sum>x | ?f x \<noteq> 0. ?f x)"
    using sm1 sm2 le by linarith
  with fin' redelegate_effect(1) [OF step] show ?thesis
    unfolding delegatedSum_def by simp
qed

lemma delegation_step_conserves:
  assumes "registry_step this w e c = Inr w'"
    and "is_delegation_call c"
    and "msg_sender e \<noteq> this"
    and "finite {d. amount (delegations (fst w) (msg_sender e) d) \<noteq> 0}"
  shows "balanceOf (snd w') (msg_sender e) + delegatedSum (fst w') (msg_sender e)
           = balanceOf (snd w) (msg_sender e) + delegatedSum (fst w) (msg_sender e)
         \<and> finite {d. amount (delegations (fst w') (msg_sender e) d) \<noteq> 0}"
proof (cases c)
  case (Call_delegate d a)
  with assms show ?thesis using delegate_conserves by simp
next
  case (Call_undelegate d a)
  with assms show ?thesis using undelegate_conserves by simp
next
  case (Call_redelegate f t a)
  with assms show ?thesis using redelegate_conserves by simp
qed (use assms in simp_all)

lemma delegation_run_conserves:
  assumes "ownr \<noteq> this"
    and "finite {d. amount (delegations (fst w) ownr d) \<noteq> 0}"
    and "\<forall>ec \<in> set cs. msg_sender (fst ec) = ownr \<and> is_delegation_call (snd ec)"
  shows "balanceOf (snd (registry_run this w cs)) ownr
           + delegatedSum (fst (registry_run this w cs)) ownr
         = balanceOf (snd w) ownr + delegatedSum (fst w) ownr"
  using assms
proof (induction cs arbitrary: w)
  case Nil
  then show ?case by simp
next
  case (Cons ec cs)
  obtain e c where ec: "ec = (e, c)" by (cases ec)
  have snd: "msg_sender e = ownr" and dc: "is_delegation_call c"
    using Cons.prems(3) ec by auto
  show ?case
  proof (cases "registry_step this w e c")
    case (Inl err)
    then have "registry_exec this w ec = w" by (simp add: registry_exec_def ec)
    with Cons show ?thesis by simp
  next
    case (Inr w')
    then have ex: "registry_exec this w ec = w'" by (simp add: registry_exec_def ec)
    have st: "balanceOf (snd w') ownr + delegatedSum (fst w') ownr
                = balanceOf (snd w) ownr + delegatedSum (fst w) ownr
              \<and> finite {d. amount (delegations (fst w') ownr d) \<noteq> 0}"
      using delegation_step_conserves [OF Inr dc] Cons.prems(1,2) snd by simp
    have "balanceOf (snd (registry_run this w' cs)) ownr
            + delegatedSum (fst (registry_run this w' cs)) ownr
          = balanceOf (snd w') ownr + delegatedSum (fst w') ownr"
      using Cons.IH [of w'] Cons.prems(1,3) st by simp
    with st ex show ?thesis by simp
  qed
qed

subsection \<open>Conservation of an owner's tokens\<close>

text \<open>
  Claim C2.  For an owner other than the registry itself, the owner's token balance plus
  the sum of the amounts of the owner's delegation records is the same before and after
  every successful \<open>delegate\<close>, \<open>undelegate\<close> and \<open>redelegate\<close> call the owner makes, and
  hence before and after any sequence of such calls (a call that reverts changes nothing).
  The sum runs over the delegators with a nonzero record, finitely many in the starting
  state.
\<close>

theorem escrow_conservation:
  assumes "ownr \<noteq> this"
    and "finite {d. amount (delegations (fst w) ownr d) \<noteq> 0}"
    and "\<forall>ec \<in> set cs. msg_sender (fst ec) = ownr \<and> is_delegation_call (snd ec)"
  shows "balanceOf (snd (registry_run this w cs)) ownr
           + delegatedSum (fst (registry_run this w cs)) ownr
         = balanceOf (snd w) ownr + delegatedSum (fst w) ownr
       \<and> (\<forall>e c w'. msg_sender e = ownr \<and> is_delegation_call c
              \<and> registry_step this w e c = Inr w' \<longrightarrow>
              balanceOf (snd w') ownr + delegatedSum (fst w') ownr
                = balanceOf (snd w) ownr + delegatedSum (fst w) ownr)"
proof -
  have one: "\<forall>e c w'. msg_sender e = ownr \<and> is_delegation_call c
              \<and> registry_step this w e c = Inr w' \<longrightarrow>
              balanceOf (snd w') ownr + delegatedSum (fst w') ownr
                = balanceOf (snd w) ownr + delegatedSum (fst w) ownr"
    using delegation_step_conserves assms(1,2) by blast
  from delegation_run_conserves [OF assms] one show ?thesis by blast
qed

lemma run_two_registered_empty:
  "delegations (fst run_two_registered) = (\<lambda>_ _. empty_delegation)"
  "balanceOf (snd run_two_registered) user1 = 10000"
  by (simp_all add: run_two_registered_def user1_def run_defs)

lemma user1_run_balance:
  "balanceOf (snd (registry_run registryAddress run_two_registered user1_calls)) user1 = 9940"
  by (simp add: run_two_registered_def user1_calls_def user1_def registryAddress_def run_defs)

theorem escrow_conservation_witness:
  "user1 \<noteq> registryAddress
   \<and> balanceOf (snd run_two_registered) user1 = 10000
   \<and> delegatedSum (fst run_two_registered) user1 = 0
   \<and> balanceOf (snd (registry_run registryAddress run_two_registered user1_calls)) user1 = 9940
   \<and> delegatedSum (fst (registry_run registryAddress run_two_registered user1_calls)) user1 = 60"
proof -
  have h1: "user1 \<noteq> registryAddress" by (simp add: user1_def registryAddress_def)
  have h2: "finite {d. amount (delegations (fst run_two_registered) user1 d) \<noteq> 0}"
    by (simp add: run_two_registered_empty empty_delegation_def)
  have h3: "\<forall>ec \<in> set user1_calls. msg_sender (fst ec) = user1 \<and> is_delegation_call (snd ec)"
    by (simp add: user1_calls_def user1_def tx_at_def)
  have z: "delegatedSum (fst run_two_registered) user1 = 0"
    by (simp add: delegatedSum_def run_two_registered_empty empty_delegation_def)
  from escrow_conservation [OF h1 h2 h3]
  have "balanceOf (snd (registry_run registryAddress run_two_registered user1_calls)) user1
          + delegatedSum (fst (registry_run registryAddress run_two_registered user1_calls)) user1
        = balanceOf (snd run_two_registered) user1 + delegatedSum (fst run_two_registered) user1"
    by blast
  with z run_two_registered_empty(2) user1_run_balance h1 show ?thesis by simp
qed

subsection \<open>The delegation cap\<close>

lemma lift_registry_Inr:
  "lift_registry w res = Inr w' \<Longrightarrow> \<exists>r. res = Inr r \<and> w' = (r, snd w)"
  by (auto simp: lift_registry_def split: sum.splits)

lemma cap_bound_mono:
  "c \<le> c' \<Longrightarrow> (s::nat) * c div MAX_CAP \<le> s * c' div MAX_CAP"
  by (simp add: div_le_mono)

lemma step_within_cap:
  assumes step: "registry_step this w e c = Inr w'"
    and nl: "\<not> lowers_cap (fst w) c"
    and inv: "within_cap w d"
  shows "within_cap w' d"
proof (cases c)
  case (Call_registerDelegator p v i)
  with step inv show ?thesis
    by (auto simp: within_cap_def registerDelegator_def dest!: lift_registry_Inr split: if_splits)
next
  case (Call_updateDelegator p v i)
  with step inv show ?thesis
    by (auto simp: within_cap_def updateDelegator_def Let_def dest!: lift_registry_Inr
        split: if_splits)
next
  case Call_deactivateDelegator
  with step inv show ?thesis
    by (auto simp: within_cap_def deactivateDelegator_def Let_def dest!: lift_registry_Inr
        split: if_splits)
next
  case (Call_delegate dlg a)
  with step have st: "delegate this w e dlg a = Inr w'" by simp
  show ?thesis
    using inv delegate_effect(3,4,5) [OF st]
      transferFrom_effect(1) [OF delegate_effect(1) [OF st]]
    by (auto simp: within_cap_def)
next
  case (Call_undelegate dlg a)
  with step have st: "undelegate this w e dlg a = Inr w'" by simp
  show ?thesis
    using inv undelegate_effect(4,5) [OF st]
      transfer_effect(1) [OF undelegate_effect(1) [OF st]]
    by (auto simp: within_cap_def)
next
  case (Call_redelegate f t a)
  with step have st: "redelegate this w e f t a = Inr w'" by simp
  show ?thesis
    using inv redelegate_effect(1,4,5,6,7) [OF st]
    by (auto simp: within_cap_def)
next
  case (Call_setDelegationCap cap)
  with step nl inv show ?thesis
    using cap_bound_mono [of "delegationCap (fst w)" cap "totalSupply (snd w)"]
    by (auto simp: within_cap_def setDelegationCap_def dest!: lift_registry_Inr split: if_splits)
next
  case (Call_setDelegationPeriodRequirement p)
  with step inv show ?thesis
    by (auto simp: within_cap_def setDelegationPeriodRequirement_def dest!: lift_registry_Inr
        split: if_splits)
next
  case (Call_setAutoExpiryPeriod p)
  with step inv show ?thesis
    by (auto simp: within_cap_def setAutoExpiryPeriod_def dest!: lift_registry_Inr
        split: if_splits)
qed

lemma run_within_cap:
  assumes "within_cap w d" and "never_lowers_cap this w cs"
  shows "within_cap (registry_run this w cs) d"
  using assms
proof (induction cs arbitrary: w)
  case Nil
  then show ?case by simp
next
  case (Cons ec cs)
  have nl: "\<not> lowers_cap (fst w) (snd ec)"
    and rest: "never_lowers_cap this (registry_exec this w ec) cs"
    using Cons.prems(2) by simp_all
  have "within_cap (registry_exec this w ec) d"
  proof (cases "registry_step this w (fst ec) (snd ec)")
    case (Inl err)
    then show ?thesis using Cons.prems(1) by (simp add: registry_exec_def)
  next
    case (Inr w')
    then show ?thesis
      using step_within_cap [OF Inr nl Cons.prems(1)] by (simp add: registry_exec_def)
  qed
  then show ?case using Cons.IH rest by simp
qed

lemma delegate_over_cap_fails:
  assumes "totalDelegated (fst w) dlg + amt > totalSupply (snd w) * delegationCap (fst w) div MAX_CAP"
  shows "\<exists>err. delegate this w e dlg amt = Inl err"
proof (cases "delegate this w e dlg amt")
  case (Inl err)
  then show ?thesis by blast
next
  case (Inr w')
  from delegate_effect(4) [OF Inr] assms show ?thesis by simp
qed

lemma delegate_over_cap_error:
  assumes "dlg \<noteq> 0" and "amt \<noteq> 0" and "dlg \<noteq> msg_sender e"
    and "registeredAt (delegators (fst w) dlg) \<noteq> 0" and "isActive (delegators (fst w) dlg)"
    and "totalSupply (snd w) * delegationCap (fst w) \<le> MAX_UINT256"
    and "totalDelegated (fst w) dlg + amt \<le> MAX_UINT256"
    and "totalDelegated (fst w) dlg + amt > totalSupply (snd w) * delegationCap (fst w) div MAX_CAP"
  shows "delegate this w e dlg amt = Inl DelegationCapExceeded"
  using assms
  by (simp add: delegate_def checked_mul_def checked_add_def Let_def)

lemma constructor_within_cap:
  "DelegateRegistry_constructor v ownr = Inr r \<Longrightarrow> within_cap (r, t) d"
  by (auto simp: DelegateRegistry_constructor_def within_cap_def split: if_splits)

text \<open>
  Claim C1, amended.  For every delegator \<open>d\<close>: the total delegated to \<open>d\<close> is within
  \<open>totalSupply * delegationCap / 10000\<close> in the state the constructor returns and after
  every successful \<open>delegate\<close> or \<open>redelegate\<close> into \<open>d\<close>; and the bound, once it holds,
  still holds after any sequence of registry calls (each succeeding or reverting) in which
  \<open>setDelegationCap\<close> never lowers the cap (no registry call changes the token supply).
  A \<open>delegate\<close> call that would push the total past the bound fails and leaves registry and
  token unchanged; it fails with \<open>DelegationCapExceeded\<close> when the earlier guards pass
  (delegator and amount nonzero, delegator not the caller, delegator registered and active)
  and neither \<open>totalSupply * delegationCap\<close> nor the new total leaves the 256-bit range.
\<close>

theorem delegation_cap_amended:
  "(DelegateRegistry_constructor v ownr = Inr r \<longrightarrow> within_cap (r, t) d)
   \<and> (delegate this w e d amt = Inr w' \<longrightarrow> within_cap w' d)
   \<and> (redelegate this w e f d amt = Inr w' \<longrightarrow> within_cap w' d)
   \<and> (within_cap w d \<and> never_lowers_cap this w cs \<longrightarrow> within_cap (registry_run this w cs) d)
   \<and> (totalDelegated (fst w) d + amt > totalSupply (snd w) * delegationCap (fst w) div MAX_CAP
        \<longrightarrow> (\<exists>err. delegate this w e d amt = Inl err)
            \<and> registry_exec this w (e, Call_delegate d amt) = w)
   \<and> (totalDelegated (fst w) d + amt > totalSupply (snd w) * delegationCap (fst w) div MAX_CAP
        \<and> d \<noteq> 0 \<and> amt \<noteq> 0 \<and> d \<noteq> msg_sender e
        \<and> registeredAt (delegators (fst w) d) \<noteq> 0 \<and> isActive (delegators (fst w) d)
        \<and> totalSupply (snd w) * delegationCap (fst w) \<le> MAX_UINT256
        \<and> totalDelegated (fst w) d + amt \<le> MAX_UINT256
        \<longrightarrow> delegate this w e d amt = Inl DelegationCapExceeded)"
proof -
  have a: "DelegateRegistry_constructor v ownr = Inr r \<longrightarrow> within_cap (r, t) d"
    using constructor_within_cap by blast
  have b: "delegate this w e d amt = Inr w' \<longrightarrow> within_cap w' d"
  proof
    assume st: "delegate this w e d amt = Inr w'"
    show "within_cap w' d"
      using delegate_effect(3,4,5) [OF st]
        transferFrom_effect(1) [OF delegate_effect(1) [OF st]]
      by (simp add: within_cap_def)
  qed
  have c: "redelegate this w e f d amt = Inr w' \<longrightarrow> within_cap w' d"
  proof
    assume st: "redelegate this w e f d amt = Inr w'"
    show "within_cap w' d"
      using redelegate_effect(1,4,5,6,7) [OF st]
      by (auto simp: within_cap_def)
  qed
  have dd: "within_cap w d \<and> never_lowers_cap this w cs \<longrightarrow> within_cap (registry_run this w cs) d"
    using run_within_cap by blast
  have ee: "totalDelegated (fst w) d + amt > totalSupply (snd w) * delegationCap (fst w) div MAX_CAP
        \<longrightarrow> (\<exists>err. delegate this w e d amt = Inl err)
            \<and> registry_exec this w (e, Call_delegate d amt) = w"
    using delegate_over_cap_fails [of w d amt this e]
    by (auto simp: registry_exec_def)
  have ff: "totalDelegated (fst w) d + amt > totalSupply (snd w) * delegationCap (fst w) div MAX_CAP
        \<and> d \<noteq> 0 \<and> amt \<noteq> 0 \<and> d \<noteq> msg_sender e
        \<and> registeredAt (delegators (fst w) d) \<noteq> 0 \<and> isActive (delegators (fst w) d)
        \<and> totalSupply (snd w) * delegationCap (fst w) \<le> MAX_UINT256
        \<and> totalDelegated (fst w) d + amt \<le> MAX_UINT256
        \<longrightarrow> delegate this w e d amt = Inl DelegationCapExceeded"
    using delegate_over_cap_error by blast
  from a b c dd ee ff show ?thesis by blast
qed

lemma cap_raised_never_lowers:
  "never_lowers_cap 100 (test_registry, test_token) cap_raised_calls"
  by (simp add: cap_raised_calls_def run_defs)

lemma cap_raised_totals:
  "totalDelegated (fst (registry_run 100 (test_registry, test_token) cap_raised_calls)) delegate1
     = 3000"
  by (simp add: cap_raised_calls_def delegate1_def run_defs)

theorem delegation_cap_amended_witness:
  "within_cap (test_registry, test_token) delegate1
   \<and> never_lowers_cap 100 (test_registry, test_token) cap_raised_calls
   \<and> totalDelegated (fst (registry_run 100 (test_registry, test_token) cap_raised_calls)) delegate1
       = 3000
   \<and> within_cap (registry_run 100 (test_registry, test_token) cap_raised_calls) delegate1
   \<and> delegate 100 run_two_registered (tx_at 10 1000) delegate1 2001 = Inl DelegationCapExceeded"
proof -
  have h1: "within_cap (test_registry, test_token) delegate1"
    by (simp add: within_cap_def test_registry_def)
  have w1: "within_cap (registry_run 100 (test_registry, test_token) cap_raised_calls) delegate1"
    using delegation_cap_amended [of _ _ _ _ delegate1 100 "(test_registry, test_token)" _ _ _ _
        cap_raised_calls] h1 cap_raised_never_lowers
    by blast
  have g: "totalDelegated (fst run_two_registered) delegate1 + 2001
             > totalSupply (snd run_two_registered) * delegationCap (fst run_two_registered) div MAX_CAP
        \<and> delegate1 \<noteq> 0 \<and> (2001::nat) \<noteq> 0 \<and> delegate1 \<noteq> msg_sender (tx_at 10 1000)
        \<and> registeredAt (delegators (fst run_two_registered) delegate1) \<noteq> 0
        \<and> isActive (delegators (fst run_two_registered) delegate1)
        \<and> totalSupply (snd run_two_registered) * delegationCap (fst run_two_registered) \<le> MAX_UINT256
        \<and> totalDelegated (fst run_two_registered) delegate1 + 2001 \<le> MAX_UINT256"
    by (simp add: run_two_registered_def delegate1_def run_defs)
  have w2: "delegate 100 run_two_registered (tx_at 10 1000) delegate1 2001 = Inl DelegationCapExceeded"
    using delegation_cap_amended [of _ _ _ _ delegate1 100 run_two_registered "tx_at 10 1000" 2001]
      g by blast
  from h1 cap_raised_never_lowers cap_raised_totals w1 w2 show ?thesis by blast
qed

subsection \<open>Totality of the voting-power query\<close>

text \<open>The loop of \<open>getVotingPower\<close> returns whenever the amounts it may add fit, together
  with the accumulator, into 256 bits.\<close>

lemma votingPowerLoop_total:
  assumes "acc + sum_list (map (\<lambda>ownr. amount (delegations r ownr dlg)) owners) \<le> MAX_UINT256"
  shows "\<exists>v. votingPowerLoop r dlg cutoff now owners acc = Inr v
           \<and> v \<le> acc + sum_list (map (\<lambda>ownr. amount (delegations r ownr dlg)) owners)"
  using assms
proof (induction owners arbitrary: acc)
  case Nil
  then show ?case by simp
next
  case (Cons ownr rest)
  let ?a = "amount (delegations r ownr dlg)"
  let ?s = "sum_list (map (\<lambda>ownr. amount (delegations r ownr dlg)) rest)"
  have b: "acc + ?a + ?s \<le> MAX_UINT256" using Cons.prems by simp
  have skip: "\<exists>v. votingPowerLoop r dlg cutoff now rest acc = Inr v \<and> v \<le> acc + ?s"
    using Cons.IH [of acc] b by simp
  have take: "\<exists>v. votingPowerLoop r dlg cutoff now rest (acc + ?a) = Inr v \<and> v \<le> acc + ?a + ?s"
    using Cons.IH [of "acc + ?a"] b by simp
  have fits: "acc + ?a \<le> MAX_UINT256" using b by simp
  show ?case
    using skip take fits
    by (auto simp: Let_def checked_add_def)
qed

text \<open>
  Claim C10.  The owner can set any period with \<open>setDelegationPeriodRequirement\<close>: there is
  no upper bound.  \<open>getVotingPower\<close> subtracts the period from the block timestamp without a
  guard: whenever the period exceeds the timestamp, the call reverts with an arithmetic
  panic, for every delegator.  When the period is at most the timestamp, the call returns a
  value for every delegator; the running sum of the listed owners' amounts is taken to fit
  into 256 bits, as it does for any token supply and list length that can occur.
\<close>

theorem getVotingPower_underflow:
  "(msg_sender e = registry_owner r \<longrightarrow>
      (\<exists>r'. setDelegationPeriodRequirement r e period = Inr r'
            \<and> delegationPeriodRequirement r' = period))
   \<and> (delegationPeriodRequirement r > block_timestamp e \<longrightarrow>
        getVotingPower r e dlg blockNumber snapshotBlock = Inl Panic)
   \<and> (delegationPeriodRequirement r \<le> block_timestamp e
        \<and> sum_list (map (\<lambda>ownr. amount (delegations r ownr dlg)) (delegatorsToOwners r dlg))
             \<le> MAX_UINT256 \<longrightarrow>
        (\<exists>v. getVotingPower r e dlg blockNumber snapshotBlock = Inr v))"
proof -
  have a: "msg_sender e = registry_owner r \<longrightarrow>
      (\<exists>r'. setDelegationPeriodRequirement r e period = Inr r'
            \<and> delegationPeriodRequirement r' = period)"
    by (simp add: setDelegationPeriodRequirement_def)
  have b: "delegationPeriodRequirement r > block_timestamp e \<longrightarrow>
        getVotingPower r e dlg blockNumber snapshotBlock = Inl Panic"
    by (simp add: getVotingPower_def checked_sub_def)
  have c: "delegationPeriodRequirement r \<le> block_timestamp e
        \<and> sum_list (map (\<lambda>ownr. amount (delegations r ownr dlg)) (delegatorsToOwners r dlg))
             \<le> MAX_UINT256 \<longrightarrow>
        (\<exists>v. getVotingPower r e dlg blockNumber snapshotBlock = Inr v)"
  proof
    assume h: "delegationPeriodRequirement r \<le> block_timestamp e
        \<and> sum_list (map (\<lambda>ownr. amount (delegations r ownr dlg)) (delegatorsToOwners r dlg))
             \<le> MAX_UINT256"
    then have "0 + sum_list (map (\<lambda>ownr. amount (delegations r ownr dlg))
                 (delegatorsToOwners r dlg)) \<le> MAX_UINT256" by simp
    from votingPowerLoop_total [OF this]
    obtain v where "votingPowerLoop r dlg (block_timestamp e - delegationPeriodRequirement r)
        (block_timestamp e) (delegatorsToOwners r dlg) 0 = Inr v" by blast
    with h show "\<exists>v. getVotingPower r e dlg blockNumber snapshotBlock = Inr v"
      by (simp add: getVotingPower_def checked_sub_def)
  qed
  from a b c show ?thesis by blast
qed

lemma run_delegate_twice_facts:
  "delegationPeriodRequirement (fst run_delegate_twice) = 604800"
  "registry_owner (fst run_delegate_twice) = 1"
  "sum_list (map (\<lambda>ownr. amount (delegations (fst run_delegate_twice) ownr delegate1))
       (delegatorsToOwners (fst run_delegate_twice) delegate1)) = 100"
  by (simp_all add: run_delegate_twice_def delegate1_def run_defs)

theorem getVotingPower_underflow_witness:
  "msg_sender (tx_at 1 3000) = registry_owner (fst run_delegate_twice)
   \<and> (\<exists>r'. setDelegationPeriodRequirement (fst run_delegate_twice) (tx_at 1 3000) MAX_UINT256
             = Inr r' \<and> delegationPeriodRequirement r' = MAX_UINT256)
   \<and> delegationPeriodRequirement (fst run_delegate_twice) > block_timestamp (tx_at 1 3000)
   \<and> getVotingPower (fst run_delegate_twice) (tx_at 1 3000) delegate1 0 0 = Inl Panic
   \<and> delegationPeriodRequirement (fst run_delegate_twice) \<le> block_timestamp (tx_at 1 700000)
   \<and> (\<exists>v. getVotingPower (fst run_delegate_twice) (tx_at 1 700000) delegate1 0 0 = Inr v)"
proof -
  have h1: "msg_sender (tx_at 1 3000) = registry_owner (fst run_delegate_twice)"
    by (simp add: run_delegate_twice_facts tx_at_def)
  have h2: "delegationPeriodRequirement (fst run_delegate_twice) > block_timestamp (tx_at 1 3000)"
    by (simp add: run_delegate_twice_facts tx_at_def)
  have h3: "delegationPeriodRequirement (fst run_delegate_twice) \<le> block_timestamp (tx_at 1 700000)
     \<and> sum_list (map (\<lambda>ownr. amount (delegations (fst run_delegate_twice) ownr delegate1))
          (delegatorsToOwners (fst run_delegate_twice) delegate1)) \<le> MAX_UINT256"
    by (simp add: run_delegate_twice_facts tx_at_def MAX_UINT256_def)
  have a: "\<exists>r'. setDelegationPeriodRequirement (fst run_delegate_twice) (tx_at 1 3000) MAX_UINT256
             = Inr r' \<and> delegationPeriodRequirement r' = MAX_UINT256"
    using getVotingPower_underflow [of "tx_at 1 3000" "fst run_delegate_twice" MAX_UINT256] h1
    by blast
  have b: "getVotingPower (fst run_delegate_twice) (tx_at 1 3000) delegate1 0 0 = Inl Panic"
    using getVotingPower_underflow [of "tx_at 1 3000" "fst run_delegate_twice" _ delegate1 0 0] h2
    by blast
  have c: "\<exists>v. getVotingPower (fst run_delegate_twice) (tx_at 1 700000) delegate1 0 0 = Inr v"
    using getVotingPower_underflow [of "tx_at 1 700000" "fst run_delegate_twice" _ delegate1 0 0] h3
    by blast
  from h1 h2 h3 a b c show ?thesis by blast
qed

section \<open>Properties of the governor's cancellation\<close>

text \<open>
  Claim C8.  Called by the original proposer, \<open>cancel\<close> succeeds exactly when the proposal
  is not Executed, Canceled or Expired (so also when it is Defeated), and in those three
  states, and only then, it fails with \<open>InvalidProposalState\<close>.  Called by the proposal
  guardian (an address other than the proposer), it succeeds exactly when the state is
  Pending, Active, Succeeded or Queued, and fails with \<open>InvalidProposalState\<close> when the state
  is Defeated or Expired.  Any other caller fails with \<open>NotAuthorizedToCancel\<close>.  After a
  successful call the proposal's state is Canceled.
\<close>

theorem cancel_authority:
  "(msg_sender e = proposer p \<longrightarrow>
      ((\<exists>p'. cancel g e p = Inr p') \<longleftrightarrow>
         \<not> (state g e p = Executed \<or> state g e p = Canceled \<or> state g e p = Expired))
      \<and> ((state g e p = Executed \<or> state g e p = Canceled \<or> state g e p = Expired)
            \<longleftrightarrow> cancel g e p = Inl InvalidProposalState)
      \<and> (state g e p = Defeated \<longrightarrow> (\<exists>p'. cancel g e p = Inr p')))
   \<and> (msg_sender e = proposalGuardian g \<and> msg_sender e \<noteq> proposer p \<longrightarrow>
      ((\<exists>p'. cancel g e p = Inr p') \<longleftrightarrow>
         (state g e p = Pending \<or> state g e p = Active \<or> state g e p = Succeeded
          \<or> state g e p = Queued))
      \<and> (state g e p = Defeated \<or> state g e p = Expired
            \<longrightarrow> cancel g e p = Inl InvalidProposalState))
   \<and> (msg_sender e \<noteq> proposer p \<and> msg_sender e \<noteq> proposalGuardian g \<longrightarrow>
        cancel g e p = Inl NotAuthorizedToCancel)
   \<and> (\<forall>p'. cancel g e p = Inr p' \<longrightarrow> state g e p' = Canceled)"
  by (auto simp: cancel_def Let_def state_def split: if_splits)

theorem cancel_authority_witness:
  "state test_governor (tx_at 10 3600) unvoted_proposal = Defeated
   \<and> (\<exists>p'. cancel test_governor (tx_at 10 3600) unvoted_proposal = Inr p')
   \<and> cancel test_governor (tx_at 50 3600) unvoted_proposal = Inl InvalidProposalState
   \<and> cancel test_governor (tx_at 60 3600) unvoted_proposal = Inl NotAuthorizedToCancel
   \<and> state test_governor (tx_at 50 1909601) queued_proposal = Expired
   \<and> cancel test_governor (tx_at 50 1909601) queued_proposal = Inl InvalidProposalState
   \<and> cancel test_governor (tx_at 10 1909601) queued_proposal = Inl InvalidProposalState
   \<and> state test_governor (tx_at 50 700000) queued_proposal = Queued
   \<and> (\<exists>p'. cancel test_governor (tx_at 50 700000) queued_proposal = Inr p')"
proof -
  have s1: "state test_governor (tx_at 10 3600) unvoted_proposal = Defeated"
    and s1': "state test_governor (tx_at 50 3600) unvoted_proposal = Defeated"
    by (simp_all add: state_def test_governor_def unvoted_proposal_def tx_at_def
        quorumReached_def)
  have s2: "state test_governor (tx_at 50 1909601) queued_proposal = Expired"
    and s2': "state test_governor (tx_at 10 1909601) queued_proposal = Expired"
    and s3: "state test_governor (tx_at 50 700000) queued_proposal = Queued"
    by (simp_all add: state_def test_governor_def queued_proposal_def tx_at_def
        quorumReached_def GRACE_PERIOD_def)
  have who: "msg_sender (tx_at 10 3600) = proposer unvoted_proposal"
    "msg_sender (tx_at 50 3600) = proposalGuardian test_governor
       \<and> msg_sender (tx_at 50 3600) \<noteq> proposer unvoted_proposal"
    "msg_sender (tx_at 60 3600) \<noteq> proposer unvoted_proposal
       \<and> msg_sender (tx_at 60 3600) \<noteq> proposalGuardian test_governor"
    "msg_sender (tx_at 50 1909601) = proposalGuardian test_governor
       \<and> msg_sender (tx_at 50 1909601) \<noteq> proposer queued_proposal"
    "msg_sender (tx_at 10 1909601) = proposer queued_proposal"
    "msg_sender (tx_at 50 700000) = proposalGuardian test_governor
       \<and> msg_sender (tx_at 50 700000) \<noteq> proposer queued_proposal"
    by (simp_all add: tx_at_def test_governor_def unvoted_proposal_def queued_proposal_def)
  have a: "\<exists>p'. cancel test_governor (tx_at 10 3600) unvoted_proposal = Inr p'"
    using cancel_authority [of "tx_at 10 3600" unvoted_proposal test_governor] who(1) s1
    by blast
  have b: "cancel test_governor (tx_at 50 3600) unvoted_proposal = Inl InvalidProposalState"
    using cancel_authority [of "tx_at 50 3600" unvoted_proposal test_governor] who(2) s1'
    by blast
  have c: "cancel test_governor (tx_at 60 3600) unvoted_proposal = Inl NotAuthorizedToCancel"
    using cancel_authority [of "tx_at 60 3600" unvoted_proposal test_governor] who(3)
    by blast
  have d: "cancel test_governor (tx_at 50 1909601) queued_proposal = Inl InvalidProposalState"
    using cancel_authority [of "tx_at 50 1909601" queued_proposal test_governor] who(4) s2
    by blast
  have f: "cancel test_governor (tx_at 10 1909601) queued_proposal = Inl InvalidProposalState"
    using cancel_authority [of "tx_at 10 1909601" queued_proposal test_governor] who(5) s2'
    by blast
  have h: "\<exists>p'. cancel test_governor (tx_at 50 700000) queued_proposal = Inr p'"
    using cancel_authority [of "tx_at 50 700000" queued_proposal test_governor] who(6) s3
    by blast
  from s1 a b c s2 d f s3 h show ?thesis by blast
qed

section \<open>Properties of the SecurityCouncil\<close>

subsection \<open>The threshold\<close>

lemma ceil_two_thirds: "(n * 2 + 2) div 3 = nat \<lceil>2 * real n / 3\<rceil>"
proof -
  have "\<lceil>2 * real n / 3\<rceil> = \<lceil>real_of_int (2 * int n) / real_of_int 3\<rceil>" by simp
  also have "\<dots> = - (- (2 * int n) div 3)" by (rule ceiling_divide_eq_div)
  also have "\<dots> = (2 * int n + 2) div 3" by presburger
  finally have "\<lceil>2 * real n / 3\<rceil> = (2 * int n + 2) div 3" .
  moreover have "int ((n * 2 + 2) div 3) = (2 * int n + 2) div 3"
    by (simp add: zdiv_int mult.commute)
  ultimately show ?thesis by simp
qed

lemma addExternalMembers_length:
  "addExternalMembers c e ms = Inr c' \<Longrightarrow>
     length (members c') = length (members c) + length ms"
  by (induction ms arbitrary: c) (auto simp: addMember_internal_def split: if_splits)

lemma constructor_threshold:
  assumes "SecurityCouncil_constructor e fm ext dao tlock pt = Inr c"
  shows "length (members c) = 1 + length ext"
    and "threshold c = (length (members c) * 2 + 2) div 3"
  using assms
  by (auto simp: SecurityCouncil_constructor_def Let_def addMember_internal_def
      blank_council_def dest!: addExternalMembers_length split: if_splits sum.splits)

lemma removeMember_internal_length:
  "length (members (removeMember_internal c m)) = length (members c) - 1"
  by (simp add: removeMember_internal_def Let_def)

lemma removeMember_internal_threshold:
  "threshold (removeMember_internal c m) = threshold c"
  by (simp add: removeMember_internal_def Let_def)

lemma removeMember_effect:
  assumes "removeMember c e m = Inr c'"
  shows "length (members c') = length (members c) - 1"
    and "threshold c' = min (threshold c) (length (members c'))"
    and "length (members c) > MIN_MEMBERS"
  using assms
  by (auto simp: removeMember_def Let_def removeMember_internal_length
      removeMember_internal_threshold split: if_splits)

lemma setThreshold_effect:
  assumes "msg_sender e = daoGovernor c"
  shows "1 \<le> n \<and> n \<le> length (members c) \<Longrightarrow>
           setThreshold c e n = Inr (c\<lparr>threshold := n,
             council_log := council_log c @ [ThresholdUpdated (threshold c) n]\<rparr>)"
    and "\<not> (1 \<le> n \<and> n \<le> length (members c)) \<Longrightarrow> setThreshold c e n = Inl InvalidThreshold"
  using assms by (auto simp: setThreshold_def)

lemma newAction_frame:
  "threshold (fst (newAction c e ty tgt dat rsn)) = threshold c"
  "members (fst (newAction c e ty tgt dat rsn)) = members c"
  by (simp_all add: newAction_def Let_def)

lemma step_threshold_inv:
  assumes step: "council_step c e call = Inr c'"
    and inv: "1 \<le> threshold c \<and> threshold c \<le> length (members c)"
  shows "1 \<le> threshold c' \<and> threshold c' \<le> length (members c')"
proof (cases call)
  case (Call_addMember m f)
  with step inv show ?thesis
    by (auto simp: addMember_def addMember_internal_def Let_def split: if_splits)
next
  case (Call_removeMember m)
  with step have st: "removeMember c e m = Inr c'" by simp
  show ?thesis
    using removeMember_effect [OF st] inv by (auto simp: MIN_MEMBERS_def)
next
  case (Call_setThreshold n)
  with step inv show ?thesis
    by (auto simp: setThreshold_def split: if_splits)
next
  case (Call_proposeEmergencyAction ty tgt dat rsn)
  with step inv show ?thesis
    by (auto simp: proposeEmergencyAction_def newAction_def Let_def split: if_splits sum.splits)
next
  case (Call_approveEmergencyAction i)
  with step inv show ?thesis
    by (auto simp: approveEmergencyAction_def Let_def split: if_splits)
next
  case (Call_executeEmergencyAction ok i)
  with step inv show ?thesis
    by (auto simp: executeEmergencyAction_def Let_def split: if_splits)
next
  case (Call_cancelEmergencyAction i)
  with step inv show ?thesis
    by (auto simp: cancelEmergencyAction_def Let_def split: if_splits)
next
  case (Call_cancelProposal p)
  with step inv show ?thesis
    by (auto simp: cancelProposal_def newAction_frame split: if_splits)
next
  case (Call_pauseProtocol rsn)
  with step inv show ?thesis
    by (auto simp: pauseProtocol_def newAction_frame split: if_splits)
next
  case Call_unpauseProtocol
  with step inv show ?thesis
    by (auto simp: unpauseProtocol_def newAction_frame split: if_splits)
next
  case (Call_setDAOGovernor g)
  with step inv show ?thesis
    by (auto simp: setDAOGovernor_def split: if_splits)
next
  case (Call_setProtocolTarget t)
  with step inv show ?thesis
    by (auto simp: setProtocolTarget_def split: if_splits)
qed

lemma reachable_threshold_inv:
  "council_reachable c \<Longrightarrow> 1 \<le> threshold c \<and> threshold c \<le> length (members c)"
proof (induction rule: council_reachable.induct)
  case (constructed e fm ext dao tlock pt c)
  from constructor_threshold [OF constructed]
  show ?case by auto
next
  case (called c e call c')
  then show ?case using step_threshold_inv by blast
qed

lemmas council_defs = test_council_def SecurityCouncil_constructor_def addMember_internal_def
  blank_council_def council_exec_def setThreshold_def removeMember_def
  removeMember_internal_def pauseProtocol_def newAction_def cancelEmergencyAction_def
  approveEmergencyAction_def executeEmergencyAction_def removePendingAction_def
  foundationMemberCount_def memberCount_def MIN_MEMBERS_def empty_action_def tx_at_def Let_def

lemma test_council_constructed:
  "SecurityCouncil_constructor (tx_at 1 1000) 11 [12, 13] 2 3 4 = Inr test_council"
  by (simp add: council_defs)

lemma council_exec_reachable:
  "council_reachable c \<Longrightarrow> council_reachable (council_exec c ec)"
  by (cases "council_step c (fst ec) (snd ec)")
     (auto simp: council_exec_def intro: council_reachable.called)

lemma council_run_reachable:
  "council_reachable c \<Longrightarrow> council_reachable (council_run c cs)"
  by (induction cs arbitrary: c) (auto intro: council_exec_reachable)

lemma test_council_reachable: "council_reachable test_council"
  using test_council_constructed by (rule council_reachable.constructed)

text \<open>
  Claim C6.  The constructor sets the threshold to the ceiling of two thirds of the member
  count.  Called by the DAO governor, \<open>setThreshold\<close> accepts exactly the values from 1 to
  the member count, stores the accepted value, and reverts with \<open>InvalidThreshold\<close>
  otherwise.  A successful \<open>removeMember\<close> lowers the member count by one and leaves the
  smaller of the old threshold and the new member count as threshold.  In every state the
  council can reach, the threshold is at least 1 and at most the member count.
\<close>

theorem threshold_bounds:
  "(SecurityCouncil_constructor e0 fm ext dao tlock pt = Inr c0 \<longrightarrow>
      memberCount c0 = 1 + length ext
      \<and> threshold c0 = nat \<lceil>2 * real (memberCount c0) / 3\<rceil>)
   \<and> (msg_sender e = daoGovernor c \<longrightarrow>
        ((\<exists>c'. setThreshold c e n = Inr c') \<longleftrightarrow> 1 \<le> n \<and> n \<le> memberCount c)
        \<and> (\<forall>c'. setThreshold c e n = Inr c' \<longrightarrow> threshold c' = n \<and> members c' = members c)
        \<and> (\<not> (1 \<le> n \<and> n \<le> memberCount c) \<longrightarrow> setThreshold c e n = Inl InvalidThreshold))
   \<and> (removeMember c e m = Inr c' \<longrightarrow>
        memberCount c' = memberCount c - 1
        \<and> threshold c' = min (threshold c) (memberCount c'))
   \<and> (council_reachable c \<longrightarrow> 1 \<le> threshold c \<and> threshold c \<le> memberCount c)"
proof -
  have a: "SecurityCouncil_constructor e0 fm ext dao tlock pt = Inr c0 \<longrightarrow>
      memberCount c0 = 1 + length ext
      \<and> threshold c0 = nat \<lceil>2 * real (memberCount c0) / 3\<rceil>"
  proof
    assume h: "SecurityCouncil_constructor e0 fm ext dao tlock pt = Inr c0"
    have "threshold c0 = nat \<lceil>2 * real (length (members c0)) / 3\<rceil>"
      unfolding constructor_threshold(2) [OF h] by (rule ceil_two_thirds)
    with constructor_threshold(1) [OF h]
    show "memberCount c0 = 1 + length ext
          \<and> threshold c0 = nat \<lceil>2 * real (memberCount c0) / 3\<rceil>"
      unfolding memberCount_def by blast
  qed
  have b: "msg_sender e = daoGovernor c \<longrightarrow>
        ((\<exists>c'. setThreshold c e n = Inr c') \<longleftrightarrow> 1 \<le> n \<and> n \<le> memberCount c)
        \<and> (\<forall>c'. setThreshold c e n = Inr c' \<longrightarrow> threshold c' = n \<and> members c' = members c)
        \<and> (\<not> (1 \<le> n \<and> n \<le> memberCount c) \<longrightarrow> setThreshold c e n = Inl InvalidThreshold)"
    by (auto simp: setThreshold_def memberCount_def)
  have r: "removeMember c e m = Inr c' \<longrightarrow>
        memberCount c' = memberCount c - 1
        \<and> threshold c' = min (threshold c) (memberCount c')"
    using removeMember_effect(1,2) [of c e m c'] by (simp add: memberCount_def)
  have i: "council_reachable c \<longrightarrow> 1 \<le> threshold c \<and> threshold c \<le> memberCount c"
    using reachable_threshold_inv by (simp add: memberCount_def)
  from a b r i show ?thesis by blast
qed

lemma three_of_three_facts:
  "threshold council_three_of_three = 3"
  "memberCount council_three_of_three = 3"
  "removeMember council_three_of_three (tx_at 2 3000) 13 =
     Inr (council_run council_three_of_three [(tx_at 2 3000, Call_removeMember 13)])"
  by (simp_all add: council_three_of_three_def council_defs)

theorem threshold_bounds_witness:
  "SecurityCouncil_constructor (tx_at 1 1000) 11 [12, 13] 2 3 4 = Inr test_council
   \<and> memberCount test_council = 3 \<and> threshold test_council = 2
   \<and> msg_sender (tx_at 2 2000) = daoGovernor test_council
   \<and> (\<exists>c'. setThreshold test_council (tx_at 2 2000) 3 = Inr c')
   \<and> setThreshold test_council (tx_at 2 2000) 4 = Inl InvalidThreshold
   \<and> setThreshold test_council (tx_at 2 2000) 0 = Inl InvalidThreshold
   \<and> threshold council_three_of_three = 3
   \<and> memberCount (council_run council_three_of_three [(tx_at 2 3000, Call_removeMember 13)]) = 2
   \<and> threshold (council_run council_three_of_three [(tx_at 2 3000, Call_removeMember 13)]) = 2
   \<and> council_reachable test_council
   \<and> 1 \<le> threshold test_council \<and> threshold test_council \<le> memberCount test_council"
proof -
  note tb = threshold_bounds
  have dao: "msg_sender (tx_at 2 2000) = daoGovernor test_council"
    by (simp add: council_defs)
  have mc: "memberCount test_council = 3"
    using tb [of "tx_at 1 1000" 11 "[12, 13]" 2 3 4 test_council] test_council_constructed
    by simp
  have "threshold test_council = nat \<lceil>2 * real (memberCount test_council) / 3\<rceil>"
    using tb [of "tx_at 1 1000" 11 "[12, 13]" 2 3 4 test_council] test_council_constructed
    by blast
  then have th: "threshold test_council = 2" unfolding mc by simp
  have s3: "\<exists>c'. setThreshold test_council (tx_at 2 2000) 3 = Inr c'"
    using tb [of _ _ _ _ _ _ _ "tx_at 2 2000" test_council 3] dao mc by simp
  have s4: "setThreshold test_council (tx_at 2 2000) 4 = Inl InvalidThreshold"
    using tb [of _ _ _ _ _ _ _ "tx_at 2 2000" test_council 4] dao mc by simp
  have s0: "setThreshold test_council (tx_at 2 2000) 0 = Inl InvalidThreshold"
    using tb [of _ _ _ _ _ _ _ "tx_at 2 2000" test_council 0] dao mc by simp
  let ?c' = "council_run council_three_of_three [(tx_at 2 3000, Call_removeMember 13)]"
  have rm: "memberCount ?c' = memberCount council_three_of_three - 1
            \<and> threshold ?c' = min (threshold council_three_of_three) (memberCount ?c')"
    using tb [of _ _ _ _ _ _ _ "tx_at 2 3000" council_three_of_three _ 13 ?c']
      three_of_three_facts(3) by blast
  have inv: "1 \<le> threshold test_council \<and> threshold test_council \<le> memberCount test_council"
    using tb [of _ _ _ _ _ _ _ _ test_council] test_council_reachable by blast
  from test_council_constructed mc th dao s3 s4 s0 three_of_three_facts(1,2) rm
    test_council_reachable inv
  show ?thesis by simp
qed

subsection \<open>Pending emergency actions\<close>

lemma findPending_None: "findPending xs a i = None \<longleftrightarrow> a \<notin> set xs"
  by (induction xs arbitrary: i) auto

lemma findPending_Some:
  "findPending xs a i = Some k \<Longrightarrow> i \<le> k \<and> k - i < length xs \<and> xs ! (k - i) = a"
proof (induction xs arbitrary: i)
  case Nil
  then show ?case by simp
next
  case (Cons x xs)
  show ?case
  proof (cases "x = a")
    case True
    with Cons.prems show ?thesis by simp
  next
    case False
    with Cons.prems have "findPending xs a (Suc i) = Some k" by simp
    from Cons.IH [OF this]
    have le: "Suc i \<le> k" and lt: "k - Suc i < length xs" and el: "xs ! (k - Suc i) = a"
      by auto
    from le have eq: "k - i = Suc (k - Suc i)" by simp
    from le lt el show ?thesis unfolding eq by simp
  qed
qed

lemma swap_pop_distinct:
  assumes d: "distinct xs" and k: "k < length xs"
  shows "set (butlast (xs[k := xs ! (length xs - 1)])) = set xs - {xs ! k}
         \<and> distinct (butlast (xs[k := xs ! (length xs - 1)]))"
proof -
  from k have ne: "xs \<noteq> []" by auto
  then obtain ys l where xs: "xs = ys @ [l]" by (metis rev_exhaust)
  have lst: "xs ! (length xs - 1) = l" by (simp add: xs)
  have dy: "distinct ys" and lny: "l \<notin> set ys" using d xs by auto
  show ?thesis
  proof (cases "k = length ys")
    case True
    then have "xs[k := l] = xs" by (simp add: xs)
    then have "butlast (xs[k := l]) = ys" by (simp add: xs)
    moreover have "xs ! k = l" using True by (simp add: xs)
    ultimately show ?thesis using dy lny lst by (auto simp: xs)
  next
    case False
    with k have ky: "k < length ys" by (simp add: xs)
    then have "xs[k := l] = ys[k := l] @ [l]" by (simp add: xs list_update_append)
    then have bl: "butlast (xs[k := l]) = ys[k := l]" by simp
    have xk: "xs ! k = ys ! k" using ky by (simp add: xs nth_append)
    have s: "set (ys[k := l]) = insert l (set ys - {ys ! k})"
      using dy ky by (rule set_update_distinct)
    have dd: "distinct (ys[k := l])"
      using dy lny by (simp add: distinct_list_update)
    have "ys ! k \<in> set ys" using ky by simp
    then have "ys ! k \<noteq> l" using lny by auto
    then show ?thesis using s dd bl xk lny lst by (auto simp: xs)
  qed
qed

lemma removePendingAction_distinct:
  assumes "distinct ids"
  shows "set (removePendingAction ids a) = set ids - {a}
         \<and> distinct (removePendingAction ids a)"
proof (cases "findPending ids a 0")
  case None
  then have "a \<notin> set ids" by (simp add: findPending_None)
  with None assms show ?thesis by (simp add: removePendingAction_def)
next
  case (Some k)
  from findPending_Some [OF Some] have k: "k < length ids" and a: "ids ! k = a" by auto
  from swap_pop_distinct [OF assms k] a Some show ?thesis
    by (simp add: removePendingAction_def)
qed

lemma newAction_pending_inv:
  "pending_inv c \<Longrightarrow> pending_inv (fst (newAction c e ty tgt dat rsn))"
  by (auto simp: pending_inv_def newAction_def Let_def)

lemma pending_inv_log: "pending_inv (c\<lparr>council_log := l\<rparr>) = pending_inv c"
  by (simp add: pending_inv_def)

lemma addExternalMembers_frame:
  "addExternalMembers c e ms = Inr c' \<Longrightarrow>
     pendingActionIds c' = pendingActionIds c \<and> actionCount c' = actionCount c
     \<and> actions c' = actions c"
  by (induction ms arbitrary: c) (auto simp: addMember_internal_def split: if_splits)

lemma constructor_pending_inv:
  "SecurityCouncil_constructor e fm ext dao tlock pt = Inr c \<Longrightarrow> pending_inv c"
  by (auto simp: SecurityCouncil_constructor_def Let_def pending_inv_def addMember_internal_def
      blank_council_def empty_action_def dest!: addExternalMembers_frame
      split: if_splits sum.splits)

lemma step_pending_inv:
  assumes step: "council_step c e call = Inr c'" and inv: "pending_inv c"
  shows "pending_inv c'"
proof (cases call)
  case (Call_addMember m f)
  with step inv show ?thesis
    by (auto simp: pending_inv_def addMember_def addMember_internal_def Let_def split: if_splits)
next
  case (Call_removeMember m)
  with step inv show ?thesis
    by (auto simp: pending_inv_def removeMember_def removeMember_internal_def Let_def
        split: if_splits)
next
  case (Call_setThreshold n)
  with step inv show ?thesis
    by (auto simp: pending_inv_def setThreshold_def split: if_splits)
next
  case (Call_proposeEmergencyAction ty tgt dat rsn)
  with step have "\<exists>l. c' = (fst (newAction c e ty tgt dat rsn))\<lparr>council_log := l\<rparr>"
    by (auto simp: proposeEmergencyAction_def split_def Let_def split: if_splits sum.splits)
  then show ?thesis
    using newAction_pending_inv [OF inv, of e ty tgt dat rsn]
    by (auto simp: pending_inv_log)
next
  case (Call_approveEmergencyAction i)
  with step inv show ?thesis
    by (auto simp: pending_inv_def approveEmergencyAction_def Let_def split: if_splits)
next
  case (Call_executeEmergencyAction ok i)
  with step inv show ?thesis
    using removePendingAction_distinct [of "pendingActionIds c" i]
    by (auto simp: pending_inv_def executeEmergencyAction_def Let_def split: if_splits)
next
  case (Call_cancelEmergencyAction i)
  with step inv show ?thesis
    using removePendingAction_distinct [of "pendingActionIds c" i]
    by (auto simp: pending_inv_def cancelEmergencyAction_def Let_def split: if_splits)
next
  case (Call_cancelProposal p)
  with step inv show ?thesis
    by (auto simp: cancelProposal_def newAction_pending_inv split: if_splits)
next
  case (Call_pauseProtocol rsn)
  with step inv show ?thesis
    by (auto simp: pauseProtocol_def newAction_pending_inv split: if_splits)
next
  case Call_unpauseProtocol
  with step inv show ?thesis
    by (auto simp: unpauseProtocol_def newAction_pending_inv split: if_splits)
next
  case (Call_setDAOGovernor g)
  with step inv show ?thesis
    by (auto simp: pending_inv_def setDAOGovernor_def split: if_splits)
next
  case (Call_setProtocolTarget t)
  with step inv show ?thesis
    by (auto simp: pending_inv_def setProtocolTarget_def split: if_splits)
qed

lemma reachable_pending_inv: "council_reachable c \<Longrightarrow> pending_inv c"
proof (induction rule: council_reachable.induct)
  case (constructed e fm ext dao tlock pt c)
  then show ?case by (rule constructor_pending_inv)
next
  case (called c e call c')
  then show ?case using step_pending_inv by blast
qed

text \<open>
  Claim C9.  In a reachable state of the council, for an action that exists and is not yet
  executed, \<open>cancelEmergencyAction\<close> called by any member succeeds: it removes the id from
  the pending list (the rest of the list keeps its elements), sets the \<open>executed\<close> flag, the
  same flag and the same pending list that a successful \<open>executeEmergencyAction\<close> would
  leave, and leaves \<open>executedAt\<close> at 0.  Afterwards \<open>approveEmergencyAction\<close>,
  \<open>executeEmergencyAction\<close> and a second \<open>cancelEmergencyAction\<close> on that id, called by a
  member, revert with \<open>ActionAlreadyExecuted\<close>.
\<close>

theorem cancel_is_terminal:
  assumes reach: "council_reachable c" and mem: "isMember c (msg_sender e)"
    and found: "createdAt (actions c i) \<noteq> 0" and pend: "\<not> executed (actions c i)"
  shows "\<exists>c'. cancelEmergencyAction c e i = Inr c'
           \<and> i \<notin> set (pendingActionIds c')
           \<and> set (pendingActionIds c') = set (pendingActionIds c) - {i}
           \<and> executed (actions c' i)
           \<and> executedAt (actions c' i) = 0
           \<and> (\<forall>c2 ok. executeEmergencyAction c e ok i = Inr c2 \<longrightarrow>
                  executed (actions c2 i) = executed (actions c' i)
                  \<and> pendingActionIds c2 = pendingActionIds c')
           \<and> (\<forall>e2 ok. isMember c' (msg_sender e2) \<longrightarrow>
                  approveEmergencyAction c' e2 i = Inl ActionAlreadyExecuted
                  \<and> executeEmergencyAction c' e2 ok i = Inl ActionAlreadyExecuted
                  \<and> cancelEmergencyAction c' e2 i = Inl ActionAlreadyExecuted)"
proof -
  have inv: "pending_inv c" using reach by (rule reachable_pending_inv)
  then have d: "distinct (pendingActionIds c)"
    and z: "executedAt (actions c i) = 0"
    using pend by (auto simp: pending_inv_def)
  let ?c' = "c\<lparr>pendingActionIds := removePendingAction (pendingActionIds c) i,
               actions := (actions c)(i := (actions c i)\<lparr>executed := True\<rparr>),
               council_log := council_log c @ [EmergencyActionCanceled i]\<rparr>"
  have res: "cancelEmergencyAction c e i = Inr ?c'"
    using mem found pend by (simp add: cancelEmergencyAction_def Let_def)
  have rp: "set (removePendingAction (pendingActionIds c) i) = set (pendingActionIds c) - {i}"
    using removePendingAction_distinct [OF d] by blast
  have ex: "\<forall>c2 ok. executeEmergencyAction c e ok i = Inr c2 \<longrightarrow>
                  executed (actions c2 i) = executed (actions ?c' i)
                  \<and> pendingActionIds c2 = pendingActionIds ?c'"
    by (auto simp: executeEmergencyAction_def Let_def split: if_splits)
  have after: "\<forall>e2 ok. isMember ?c' (msg_sender e2) \<longrightarrow>
                  approveEmergencyAction ?c' e2 i = Inl ActionAlreadyExecuted
                  \<and> executeEmergencyAction ?c' e2 ok i = Inl ActionAlreadyExecuted
                  \<and> cancelEmergencyAction ?c' e2 i = Inl ActionAlreadyExecuted"
    using found
    by (simp add: approveEmergencyAction_def executeEmergencyAction_def
        cancelEmergencyAction_def Let_def)
  have "i \<notin> set (pendingActionIds ?c')
           \<and> set (pendingActionIds ?c') = set (pendingActionIds c) - {i}
           \<and> executed (actions ?c' i)
           \<and> executedAt (actions ?c' i) = 0"
    using rp z by simp
  with res ex after show ?thesis by blast
qed

lemma council_with_action_facts:
  "isMember council_with_action (msg_sender (tx_at 12 2500))"
  "createdAt (actions council_with_action 0) \<noteq> 0"
  "\<not> executed (actions council_with_action 0)"
  "pendingActionIds council_with_action = [0]"
  "isMember council_with_action (msg_sender (tx_at 13 3000))"
  by (simp_all add: council_with_action_def council_defs)

lemma council_with_action_reachable: "council_reachable council_with_action"
  unfolding council_with_action_def
  using test_council_reachable by (rule council_run_reachable)

lemma cancel_keeps_members:
  "cancelEmergencyAction c e i = Inr c' \<Longrightarrow> isMember c' = isMember c"
  by (auto simp: cancelEmergencyAction_def Let_def split: if_splits)

theorem cancel_is_terminal_witness:
  "council_reachable council_with_action
   \<and> isMember council_with_action (msg_sender (tx_at 12 2500))
   \<and> createdAt (actions council_with_action 0) \<noteq> 0
   \<and> \<not> executed (actions council_with_action 0)
   \<and> pendingActionIds council_with_action = [0]
   \<and> (\<exists>c'. cancelEmergencyAction council_with_action (tx_at 12 2500) 0 = Inr c'
          \<and> pendingActionIds c' = []
          \<and> executed (actions c' 0) \<and> executedAt (actions c' 0) = 0
          \<and> approveEmergencyAction c' (tx_at 13 3000) 0 = Inl ActionAlreadyExecuted
          \<and> executeEmergencyAction c' (tx_at 13 3000) True 0 = Inl ActionAlreadyExecuted)"
proof -
  note f = council_with_action_facts
  from cancel_is_terminal [OF council_with_action_reachable f(1) f(2) f(3)]
  obtain c' where c': "cancelEmergencyAction council_with_action (tx_at 12 2500) 0 = Inr c'"
    and p: "set (pendingActionIds c') = set (pendingActionIds council_with_action) - {0}"
    and x: "executed (actions c' 0)" "executedAt (actions c' 0) = 0"
    and after: "\<forall>e2 ok. isMember c' (msg_sender e2) \<longrightarrow>
                  approveEmergencyAction c' e2 0 = Inl ActionAlreadyExecuted
                  \<and> executeEmergencyAction c' e2 ok 0 = Inl ActionAlreadyExecuted
                  \<and> cancelEmergencyAction c' e2 0 = Inl ActionAlreadyExecuted"
    by blast
  have m: "isMember c' (msg_sender (tx_at 13 3000))"
    using cancel_keeps_members [OF c'] f(5) by simp
  have e: "pendingActionIds c' = []" using p f(4) by simp
  from after m have
    "approveEmergencyAction c' (tx_at 13 3000) 0 = Inl ActionAlreadyExecuted
     \<and> executeEmergencyAction c' (tx_at 13 3000) True 0 = Inl ActionAlreadyExecuted"
    by blast
  with c' e x f council_with_action_reachable show ?thesis by blast
qed

end
